theory Spec2Isabelle
  imports Main "HOL-Library.Word"
begin

unbundle bit_operations_syntax

section \<open>Basic types\<close>

text \<open>
  \<open>dimension_size_type\<close> is \<open>std::size_t\<close>, taken here as 64 bits wide; the sizes the
  metadata store hands out are 32-bit unsigned values that convert implicitly.
\<close>

type_synonym dimension_size_type = "64 word"
type_synonym u8 = "8 word"
type_synonym u16 = "16 word"
type_synonym u32 = "32 word"
type_synonym u64 = "64 word"
type_synonym path = string

datatype error =
    InvalidState
  | OutOfRange
  | NullPointer
  | MetadataMissing
  | InvalidSeries dimension_size_type
  | SeriesOutOfOrder dimension_size_type dimension_size_type
  | InvalidPlane dimension_size_type
  | PlaneOutOfOrder dimension_size_type dimension_size_type
  | InvalidResolution dimension_size_type
  | MetadataStoreNull
  | OMEXMLMetadataNull
  | IncompletePlanes dimension_size_type
  | FileNotRegistered path
  | FieldNotSet
  | FieldArraySizesNotEqual
  | UndefinedBehaviour
  | InvalidEndianHeader
  | InvalidVersion u16
  | NonstandardOffsetSize u16
  | ReadFailed
  | BadStream
  | InvalidDescriptionType u16
  | DescriptionSizeIncorrect
  | DescriptionNotFound
  | WriteError

text \<open>Sequencing of fallible steps: the first exception thrown ends the computation.\<close>

definition andThen :: "error + 'a \<Rightarrow> ('a \<Rightarrow> error + 'b) \<Rightarrow> error + 'b" where
  "andThen m f = (case m of Inl e \<Rightarrow> Inl e | Inr v \<Rightarrow> f v)"

text \<open>\<open>std::vector::at\<close>: the element, or \<open>std::out_of_range\<close>.\<close>

definition at :: "'a list \<Rightarrow> dimension_size_type \<Rightarrow> error + 'a" where
  "at xs i = (if unat i < length xs then Inr (xs ! unat i) else Inl OutOfRange)"

section \<open>The metadata store, as far as the writer reads it\<close>

datatype DimensionOrder = XYZCT | XYZTC | XYCTZ | XYCZT | XYTCZ | XYTZC

record Channel =
  channelSamplesPerPixel :: "u32 option"

record Image =
  pixelsSizeX :: u32
  pixelsSizeY :: u32
  pixelsSizeZ :: u32
  pixelsSizeT :: u32
  pixelsSizeC :: u32
  pixelsDimensionOrder :: DimensionOrder
  channels :: "Channel list"

type_synonym MetadataRetrieve = "Image list"

text \<open>
  The getters of the store take an image index and fail when the index names no image
  (or when the value is unset).
\<close>

definition getImage :: "MetadataRetrieve \<Rightarrow> dimension_size_type \<Rightarrow> error + Image" where
  "getImage mr i = (if unat i < length mr then Inr (mr ! unat i) else Inl MetadataMissing)"

definition getPixelsSizeX :: "MetadataRetrieve \<Rightarrow> dimension_size_type \<Rightarrow> error + u32" where
  "getPixelsSizeX mr i = andThen (getImage mr i) (\<lambda>im. Inr (pixelsSizeX im))"

definition getPixelsSizeZ :: "MetadataRetrieve \<Rightarrow> dimension_size_type \<Rightarrow> error + u32" where
  "getPixelsSizeZ mr i = andThen (getImage mr i) (\<lambda>im. Inr (pixelsSizeZ im))"

definition getPixelsSizeT :: "MetadataRetrieve \<Rightarrow> dimension_size_type \<Rightarrow> error + u32" where
  "getPixelsSizeT mr i = andThen (getImage mr i) (\<lambda>im. Inr (pixelsSizeT im))"

definition getPixelsSizeC :: "MetadataRetrieve \<Rightarrow> dimension_size_type \<Rightarrow> error + u32" where
  "getPixelsSizeC mr i = andThen (getImage mr i) (\<lambda>im. Inr (pixelsSizeC im))"

definition getChannelCount :: "MetadataRetrieve \<Rightarrow> dimension_size_type \<Rightarrow> error + dimension_size_type" where
  "getChannelCount mr i = andThen (getImage mr i) (\<lambda>im. Inr (of_nat (length (channels im))))"

definition getPixelsDimensionOrder :: "MetadataRetrieve \<Rightarrow> dimension_size_type \<Rightarrow> error + DimensionOrder" where
  "getPixelsDimensionOrder mr i = andThen (getImage mr i) (\<lambda>im. Inr (pixelsDimensionOrder im))"

section \<open>FormatWriter: the cursor and the dimension accessors\<close>

text \<open>A resolution level is the array \<open>{sizeX, sizeY, sizeZ}\<close>.\<close>

type_synonym Resolution = "dimension_size_type \<times> dimension_size_type \<times> dimension_size_type"

record FormatWriter =
  currentId :: "path option"
  series :: dimension_size_type
  resolution :: dimension_size_type
  plane :: dimension_size_type
  tile_size_x :: "dimension_size_type option"
  tile_size_y :: "dimension_size_type option"
  metadataRetrieve :: "MetadataRetrieve option"
  resolutionLevels :: "Resolution list list"

text \<open>
  Modelled from the spec: \<open>assertId\<close> is declared in FormatHandler.h, which is not among
  the sources. Section 3 (a) and the \<open>InvalidState\<close> error kind say what it does: an
  operation that needs an open file fails when \<open>currentId\<close> is unset.
\<close>

definition assertId :: "path option \<Rightarrow> bool \<Rightarrow> error + unit" where
  "assertId cid notNull =
     (if (cid = None) = notNull then Inl InvalidState else Inr ())"

definition getSeries :: "'a FormatWriter_scheme \<Rightarrow> error + dimension_size_type" where
  "getSeries w = andThen (assertId (currentId w) True) (\<lambda>_. Inr (series w))"

definition getResolution :: "'a FormatWriter_scheme \<Rightarrow> error + dimension_size_type" where
  "getResolution w = andThen (assertId (currentId w) True) (\<lambda>_. Inr (resolution w))"

definition getPlane :: "'a FormatWriter_scheme \<Rightarrow> error + dimension_size_type" where
  "getPlane w = andThen (assertId (currentId w) True) (\<lambda>_. Inr (plane w))"

text \<open>\<open>resolutionLevels.at(getSeries()).at(getResolution())\<close>\<close>

definition currentLevel :: "'a FormatWriter_scheme \<Rightarrow> error + Resolution" where
  "currentLevel w =
     andThen (getSeries w) (\<lambda>s.
     andThen (getResolution w) (\<lambda>r.
     andThen (at (resolutionLevels w) s) (\<lambda>levels.
     at levels r)))"

text \<open>A null \<open>metadataRetrieve\<close> pointer cannot be dereferenced.\<close>

definition store :: "'a FormatWriter_scheme \<Rightarrow> error + MetadataRetrieve" where
  "store w = (case metadataRetrieve w of None \<Rightarrow> Inl NullPointer | Some mr \<Rightarrow> Inr mr)"

definition getSizeX :: "'a FormatWriter_scheme \<Rightarrow> error + dimension_size_type" where
  "getSizeX w =
     andThen (currentLevel w) (\<lambda>(x, y, z).
       let sizeX = x;
           sizeX = (if sizeX = 0 then 1 else sizeX)
       in Inr sizeX)"

definition getSizeY :: "'a FormatWriter_scheme \<Rightarrow> error + dimension_size_type" where
  "getSizeY w =
     andThen (currentLevel w) (\<lambda>(x, y, z).
       let sizeY = y;
           sizeY = (if sizeY = 0 then 1 else sizeY)
       in Inr sizeY)"

definition getSizeZ :: "'a FormatWriter_scheme \<Rightarrow> error + dimension_size_type" where
  "getSizeZ w =
     andThen (currentLevel w) (\<lambda>(x, y, z).
       let sizeZ = z;
           sizeZ = (if sizeZ = 0 then 1 else sizeZ)
       in Inr sizeZ)"

definition getSizeT :: "'a FormatWriter_scheme \<Rightarrow> error + dimension_size_type" where
  "getSizeT w =
     andThen (getSeries w) (\<lambda>s.
     andThen (store w) (\<lambda>mr.
     andThen (getPixelsSizeT mr s) (\<lambda>v.
       let sizeT = ucast v;
           sizeT = (if sizeT = 0 then 1 else sizeT)
       in Inr sizeT)))"

definition getSizeC :: "'a FormatWriter_scheme \<Rightarrow> error + dimension_size_type" where
  "getSizeC w =
     andThen (getSeries w) (\<lambda>s.
     andThen (store w) (\<lambda>mr.
     andThen (getPixelsSizeC mr s) (\<lambda>v.
       let sizeC = ucast v;
           sizeC = (if sizeC = 0 then 1 else sizeC)
       in Inr sizeC)))"

definition getEffectiveSizeC :: "'a FormatWriter_scheme \<Rightarrow> error + dimension_size_type" where
  "getEffectiveSizeC w =
     andThen (getSeries w) (\<lambda>s.
     andThen (store w) (\<lambda>mr. getChannelCount mr s))"

definition getImageCount :: "'a FormatWriter_scheme \<Rightarrow> error + dimension_size_type" where
  "getImageCount w =
     andThen (getSizeZ w) (\<lambda>z.
     andThen (getSizeT w) (\<lambda>t.
     andThen (getEffectiveSizeC w) (\<lambda>c. Inr (z * t * c))))"

definition getSeriesCount :: "'a FormatWriter_scheme \<Rightarrow> error + dimension_size_type" where
  "getSeriesCount w = andThen (store w) (\<lambda>mr. Inr (of_nat (length mr)))"

section \<open>Lemmas on the accessors\<close>

lemma andThen_Inr [simp]: "andThen (Inr v) f = f v"
  by (simp add: andThen_def)

lemma andThen_Inl [simp]: "andThen (Inl e) f = Inl e"
  by (simp add: andThen_def)

lemma andThen_eq_Inr:
  "andThen m f = Inr r \<longleftrightarrow> (\<exists>v. m = Inr v \<and> f v = Inr r)"
  by (cases m) simp_all

lemma currentLevel_open:
  assumes "currentId w \<noteq> None"
    and "unat (series w) < length (resolutionLevels w)"
    and "unat (resolution w) < length (resolutionLevels w ! unat (series w))"
  shows "currentLevel w = Inr (resolutionLevels w ! unat (series w) ! unat (resolution w))"
  using assms
  by (simp add: currentLevel_def getSeries_def getResolution_def assertId_def at_def)

lemma unat_ucast_u32: "unat (ucast (v :: u32) :: dimension_size_type) = unat v"
  by (simp add: unsigned_ucast_eq take_bit_nat_eq_self unsigned_less [THEN less_trans])

lemma ucast_u32_eq_0: "(ucast (v :: u32) :: dimension_size_type) = 0 \<longleftrightarrow> v = 0"
  using unat_ucast_u32 [of v] by (metis unat_eq_0)

subsection \<open>C10: the dimension accessors never return 0\<close>

text \<open>
  C10. None of \<open>getSizeX\<close>, \<open>getSizeY\<close>, \<open>getSizeZ\<close>, \<open>getSizeT\<close>, \<open>getSizeC\<close> returns 0,
  whatever the state of the writer. On an open writer whose cursor names an existing
  resolution level (for X, Y, Z) or an existing image of the store (for T, C), a recorded
  extent of 0 is returned as 1 and any other recorded extent is returned as it is.
\<close>

theorem getSize_never_zero:
  "getSizeX w \<noteq> Inr 0 \<and> getSizeY w \<noteq> Inr 0 \<and> getSizeZ w \<noteq> Inr 0
   \<and> getSizeT w \<noteq> Inr 0 \<and> getSizeC w \<noteq> Inr 0
   \<and> (currentId w \<noteq> None \<longrightarrow> unat (series w) < length (resolutionLevels w) \<longrightarrow>
        unat (resolution w) < length (resolutionLevels w ! unat (series w)) \<longrightarrow>
        resolutionLevels w ! unat (series w) ! unat (resolution w) = (x, y, z) \<longrightarrow>
          getSizeX w = Inr (if x = 0 then 1 else x)
        \<and> getSizeY w = Inr (if y = 0 then 1 else y)
        \<and> getSizeZ w = Inr (if z = 0 then 1 else z))
   \<and> (currentId w \<noteq> None \<longrightarrow> metadataRetrieve w = Some mr \<longrightarrow> unat (series w) < length mr \<longrightarrow>
          getSizeT w = Inr (if pixelsSizeT (mr ! unat (series w)) = 0 then 1
                            else ucast (pixelsSizeT (mr ! unat (series w))))
        \<and> getSizeC w = Inr (if pixelsSizeC (mr ! unat (series w)) = 0 then 1
                            else ucast (pixelsSizeC (mr ! unat (series w)))))"
proof -
  have nx: "getSizeX w \<noteq> Inr 0"
    by (auto simp: getSizeX_def andThen_eq_Inr Let_def split: prod.splits if_splits)
  have ny: "getSizeY w \<noteq> Inr 0"
    by (auto simp: getSizeY_def andThen_eq_Inr Let_def split: prod.splits if_splits)
  have nz: "getSizeZ w \<noteq> Inr 0"
    by (auto simp: getSizeZ_def andThen_eq_Inr Let_def split: prod.splits if_splits)
  have nt: "getSizeT w \<noteq> Inr 0"
    by (auto simp: getSizeT_def andThen_eq_Inr Let_def ucast_u32_eq_0 split: if_splits)
  have nc: "getSizeC w \<noteq> Inr 0"
    by (auto simp: getSizeC_def andThen_eq_Inr Let_def ucast_u32_eq_0 split: if_splits)
  have lv: "getSizeX w = Inr (if x = 0 then 1 else x)
        \<and> getSizeY w = Inr (if y = 0 then 1 else y)
        \<and> getSizeZ w = Inr (if z = 0 then 1 else z)"
    if "currentId w \<noteq> None" "unat (series w) < length (resolutionLevels w)"
       "unat (resolution w) < length (resolutionLevels w ! unat (series w))"
       "resolutionLevels w ! unat (series w) ! unat (resolution w) = (x, y, z)"
    using that currentLevel_open [of w]
    by (simp add: getSizeX_def getSizeY_def getSizeZ_def)
  have st: "getSizeT w = Inr (if pixelsSizeT (mr ! unat (series w)) = 0 then 1
                            else ucast (pixelsSizeT (mr ! unat (series w))))
        \<and> getSizeC w = Inr (if pixelsSizeC (mr ! unat (series w)) = 0 then 1
                            else ucast (pixelsSizeC (mr ! unat (series w))))"
    if "currentId w \<noteq> None" "metadataRetrieve w = Some mr" "unat (series w) < length mr"
    using that
    by (simp add: getSizeT_def getSizeC_def getSeries_def assertId_def store_def
        getPixelsSizeT_def getPixelsSizeC_def getImage_def ucast_u32_eq_0)
  from nx ny nz nt nc lv st show ?thesis by blast
qed

text \<open>
  An open writer on one image whose only resolution level and whose store record every
  extent as 0.
\<close>

definition zero_image :: Image where
  "zero_image = \<lparr>pixelsSizeX = 0, pixelsSizeY = 0, pixelsSizeZ = 0, pixelsSizeT = 0,
     pixelsSizeC = 0, pixelsDimensionOrder = XYZCT, channels = []\<rparr>"

definition zero_writer :: FormatWriter where
  "zero_writer = \<lparr>currentId = Some ''zero.ome.tiff'', series = 0, resolution = 0, plane = 0,
     tile_size_x = None, tile_size_y = None, metadataRetrieve = Some [zero_image],
     resolutionLevels = [[(0, 0, 0)]]\<rparr>"

theorem getSize_never_zero_witness:
  "currentId zero_writer \<noteq> None
   \<and> unat (series zero_writer) < length (resolutionLevels zero_writer)
   \<and> unat (resolution zero_writer) < length (resolutionLevels zero_writer ! unat (series zero_writer))
   \<and> resolutionLevels zero_writer ! unat (series zero_writer) ! unat (resolution zero_writer) = (0, 0, 0)
   \<and> metadataRetrieve zero_writer = Some [zero_image]
   \<and> getSizeX zero_writer = Inr 1 \<and> getSizeY zero_writer = Inr 1 \<and> getSizeZ zero_writer = Inr 1
   \<and> getSizeT zero_writer = Inr 1 \<and> getSizeC zero_writer = Inr 1"
  using getSize_never_zero [of zero_writer 0 0 0 "[zero_image]"]
  by (simp add: zero_writer_def zero_image_def)

section \<open>FormatWriter: moving the cursor\<close>

text \<open>
  The setters return nothing and change the writer, or throw. The result is the error
  thrown or \<open>()\<close>, and the writer as the call leaves it. A call to one of the \<open>const\<close>
  accessors that throws leaves the setter with the writer as it is at that point.
\<close>

definition orThrow ::
  "error + 'a \<Rightarrow> 'w \<Rightarrow> ('a \<Rightarrow> (error + unit) \<times> 'w) \<Rightarrow> (error + unit) \<times> 'w" where
  "orThrow r w k = (case r of Inl e \<Rightarrow> (Inl e, w) | Inr v \<Rightarrow> k v)"

definition setSeries ::
  "dimension_size_type \<Rightarrow> 'a FormatWriter_scheme \<Rightarrow> (error + unit) \<times> 'a FormatWriter_scheme" where
  "setSeries s w =
     orThrow (assertId (currentId w) True) w (\<lambda>_.
     orThrow (getSeriesCount w) w (\<lambda>seriesCount.
       if s \<ge> seriesCount then (Inl (InvalidSeries s), w)
       else
     orThrow (getSeries w) w (\<lambda>currentSeries.
       if currentSeries \<noteq> s \<and> (s > 0 \<and> currentSeries \<noteq> s - 1)
       then (Inl (SeriesOutOfOrder s currentSeries), w)
       else (Inr (), w\<lparr>series := s, resolution := 0, plane := 0\<rparr>))))"

definition setPlane ::
  "dimension_size_type \<Rightarrow> 'a FormatWriter_scheme \<Rightarrow> (error + unit) \<times> 'a FormatWriter_scheme" where
  "setPlane p w =
     orThrow (assertId (currentId w) True) w (\<lambda>_.
     orThrow (getImageCount w) w (\<lambda>imageCount.
       if p \<ge> imageCount then (Inl (InvalidPlane p), w)
       else
     orThrow (getPlane w) w (\<lambda>currentPlane.
       if currentPlane \<noteq> p \<and> (p > 0 \<and> currentPlane \<noteq> p - 1)
       then (Inl (PlaneOutOfOrder p currentPlane), w)
       else (Inr (), w\<lparr>plane := p\<rparr>))))"

definition getResolutionCount :: "'a FormatWriter_scheme \<Rightarrow> error + dimension_size_type" where
  "getResolutionCount w =
     andThen (assertId (currentId w) True) (\<lambda>_.
     andThen (getSeries w) (\<lambda>s.
     andThen (at (resolutionLevels w) s) (\<lambda>levels. Inr (of_nat (length levels)))))"

definition setResolution ::
  "dimension_size_type \<Rightarrow> 'a FormatWriter_scheme \<Rightarrow> (error + unit) \<times> 'a FormatWriter_scheme" where
  "setResolution r w =
     orThrow (assertId (currentId w) True) w (\<lambda>_.
     orThrow (getResolutionCount w) w (\<lambda>n.
       if r \<ge> n then (Inl (InvalidResolution r), w)
       else (Inr (), w\<lparr>resolution := r, plane := 0\<rparr>)))"

subsection \<open>What the order check of the cursor accepts\<close>

lemma orThrow_Inr [simp]: "orThrow (Inr v) w k = k v"
  by (simp add: orThrow_def)

lemma orThrow_Inl [simp]: "orThrow (Inl e) w k = (Inl e, w)"
  by (simp add: orThrow_def)

lemma setSeries_open:
  assumes "currentId w \<noteq> None" and "metadataRetrieve w = Some mr" and "s < of_nat (length mr)"
  shows "setSeries s w =
     (if s = series w \<or> s = series w + 1 \<or> s = 0
      then (Inr (), w\<lparr>series := s, resolution := 0, plane := 0\<rparr>)
      else (Inl (SeriesOutOfOrder s (series w)), w))"
proof -
  have eq: "series w = s - 1 \<longleftrightarrow> s = series w + 1"
    by auto
  have pos: "0 < s \<longleftrightarrow> s \<noteq> 0"
    by (simp add: word_greater_zero_iff)
  show ?thesis
    using assms
    by (auto simp: setSeries_def getSeriesCount_def getSeries_def assertId_def store_def
        eq pos not_le [symmetric])
qed

lemma setPlane_open:
  assumes "currentId w \<noteq> None" and "getImageCount w = Inr n" and "p < n"
  shows "setPlane p w =
     (if p = plane w \<or> p = plane w + 1 \<or> p = 0
      then (Inr (), w\<lparr>plane := p\<rparr>)
      else (Inl (PlaneOutOfOrder p (plane w)), w))"
proof -
  have eq: "plane w = p - 1 \<longleftrightarrow> p = plane w + 1"
    by auto
  have pos: "0 < p \<longleftrightarrow> p \<noteq> 0"
    by (simp add: word_greater_zero_iff)
  show ?thesis
    using assms
    by (auto simp: setPlane_def getPlane_def assertId_def eq pos not_le [symmetric])
qed

text \<open>
  A setter that throws has assigned nothing: every throw comes before the assignments.
\<close>

lemma setSeries_throws:
  assumes "fst (setSeries s w) = Inl e"
  shows "snd (setSeries s w) = w"
  using assms
  by (auto simp: setSeries_def orThrow_def split: sum.splits if_splits)

lemma setPlane_throws:
  assumes "fst (setPlane p w) = Inl e"
  shows "snd (setPlane p w) = w"
  using assms
  by (auto simp: setPlane_def orThrow_def split: sum.splits if_splits)

subsection \<open>C4: the order check lets the cursor go back to 0\<close>

text \<open>
  The writer of the unit tests: four images of 20 Z sections, 4 time points and two
  channels of one sample, 512 by 1024 pixels, one resolution level each.
\<close>

definition test_image :: Image where
  "test_image = \<lparr>pixelsSizeX = 512, pixelsSizeY = 1024, pixelsSizeZ = 20, pixelsSizeT = 4,
     pixelsSizeC = 2, pixelsDimensionOrder = XYZCT,
     channels = [\<lparr>channelSamplesPerPixel = Some 1\<rparr>, \<lparr>channelSamplesPerPixel = Some 1\<rparr>]\<rparr>"

definition test_writer :: "dimension_size_type \<Rightarrow> dimension_size_type \<Rightarrow> FormatWriter" where
  "test_writer s p = \<lparr>currentId = Some ''output.test'', series = s, resolution = 0, plane = p,
     tile_size_x = None, tile_size_y = None,
     metadataRetrieve = Some [test_image, test_image, test_image, test_image],
     resolutionLevels = [[(512, 1024, 20)], [(512, 1024, 20)], [(512, 1024, 20)], [(512, 1024, 20)]]\<rparr>"

lemma test_writer_counts:
  "getSeriesCount (test_writer s p) = Inr 4" "getImageCount (test_writer s p) = Inr 160"
  if "s < 4"
proof -
  have "unat s < 4" using that by (simp add: word_less_nat_alt)
  then show "getSeriesCount (test_writer s p) = Inr 4" "getImageCount (test_writer s p) = Inr 160"
    by (simp_all add: test_writer_def test_image_def getSeriesCount_def getImageCount_def
        getSizeZ_def getSizeT_def getEffectiveSizeC_def currentLevel_def getSeries_def
        getResolution_def assertId_def store_def at_def getPixelsSizeT_def getChannelCount_def
        getImage_def nth_Cons')
qed

text \<open>
  C4, as stated, fails. With series 2 of 4 current, \<open>setSeries(0)\<close> is neither the current
  series nor the next one, and it is accepted: the cursor moves back to series 0. With
  plane 5 of 160 current, \<open>setPlane(0)\<close> is accepted in the same way.
\<close>

theorem setSeries_setPlane_back_to_zero:
  "getSeriesCount (test_writer 2 5) = Inr 4 \<and> getImageCount (test_writer 2 5) = Inr 160
   \<and> series (test_writer 2 5) = 2 \<and> plane (test_writer 2 5) = 5
   \<and> setSeries 0 (test_writer 2 5) = (Inr (), test_writer 0 0)
   \<and> setPlane 0 (test_writer 2 5) = (Inr (), test_writer 2 0)"
proof -
  have mr: "metadataRetrieve (test_writer s p) = Some [test_image, test_image, test_image, test_image]"
    and op: "currentId (test_writer s p) \<noteq> None" for s p
    by (simp_all add: test_writer_def)
  have a: "setSeries 0 (test_writer 2 5) = (Inr (), test_writer 0 0)"
    using setSeries_open [OF op mr, of 0 2 5] by (simp add: test_writer_def)
  have b: "setPlane 0 (test_writer 2 5) = (Inr (), test_writer 2 0)"
    using setPlane_open [OF op test_writer_counts(2), of 2 0 5] by (simp add: test_writer_def)
  have c: "series (test_writer 2 5) = 2" "plane (test_writer 2 5) = 5"
    by (simp_all add: test_writer_def)
  from a b c test_writer_counts [of 2 5] show ?thesis by simp
qed

text \<open>
  C4, amended. On an open writer, \<open>setSeries(s)\<close> with \<open>s\<close> below the series count succeeds
  exactly when \<open>s\<close> is the current series, the next one, or 0, and then sets the series and
  resets resolution and plane to 0; \<open>setPlane(p)\<close> with \<open>p\<close> below the image count succeeds
  exactly when \<open>p\<close> is the current plane, the next one, or 0, and then sets the plane. Every
  other access is refused as out of order, and the writer after the refused call is the
  writer before it. More generally, whatever the error a call to \<open>setSeries\<close> or \<open>setPlane\<close>
  ends with (writer not open, index beyond the count, out of order), the writer after the
  call is the writer before it: series, resolution and plane are unchanged.
\<close>

theorem setSeries_setPlane_order:
  fixes w :: "'a FormatWriter_scheme"
  assumes "currentId w \<noteq> None"
  shows "(metadataRetrieve w = Some mr \<and> s < of_nat (length mr) \<longrightarrow>
            setSeries s w =
              (if s = series w \<or> s = series w + 1 \<or> s = 0
               then (Inr (), w\<lparr>series := s, resolution := 0, plane := 0\<rparr>)
               else (Inl (SeriesOutOfOrder s (series w)), w)))
       \<and> (getImageCount w = Inr n \<and> p < n \<longrightarrow>
            setPlane p w =
              (if p = plane w \<or> p = plane w + 1 \<or> p = 0
               then (Inr (), w\<lparr>plane := p\<rparr>)
               else (Inl (PlaneOutOfOrder p (plane w)), w)))
       \<and> (\<forall>(v :: 'a FormatWriter_scheme) s' e. fst (setSeries s' v) = Inl e \<longrightarrow>
            snd (setSeries s' v) = v \<and> series (snd (setSeries s' v)) = series v
            \<and> resolution (snd (setSeries s' v)) = resolution v
            \<and> plane (snd (setSeries s' v)) = plane v)
       \<and> (\<forall>(v :: 'a FormatWriter_scheme) p' e. fst (setPlane p' v) = Inl e \<longrightarrow>
            snd (setPlane p' v) = v \<and> series (snd (setPlane p' v)) = series v
            \<and> resolution (snd (setPlane p' v)) = resolution v
            \<and> plane (snd (setPlane p' v)) = plane v)"
proof -
  have a: "metadataRetrieve w = Some mr \<and> s < of_nat (length mr) \<longrightarrow>
            setSeries s w =
              (if s = series w \<or> s = series w + 1 \<or> s = 0
               then (Inr (), w\<lparr>series := s, resolution := 0, plane := 0\<rparr>)
               else (Inl (SeriesOutOfOrder s (series w)), w))"
    using setSeries_open [OF assms, of mr s] by blast
  have b: "getImageCount w = Inr n \<and> p < n \<longrightarrow>
            setPlane p w =
              (if p = plane w \<or> p = plane w + 1 \<or> p = 0
               then (Inr (), w\<lparr>plane := p\<rparr>)
               else (Inl (PlaneOutOfOrder p (plane w)), w))"
    using setPlane_open [OF assms, of n p] by blast
  have c: "snd (setSeries s' v) = v \<and> series (snd (setSeries s' v)) = series v
            \<and> resolution (snd (setSeries s' v)) = resolution v
            \<and> plane (snd (setSeries s' v)) = plane v"
    if "fst (setSeries s' v) = Inl e" for v :: "'a FormatWriter_scheme" and s' e
    using setSeries_throws [OF that] by simp
  have d: "snd (setPlane p' v) = v \<and> series (snd (setPlane p' v)) = series v
            \<and> resolution (snd (setPlane p' v)) = resolution v
            \<and> plane (snd (setPlane p' v)) = plane v"
    if "fst (setPlane p' v) = Inl e" for v :: "'a FormatWriter_scheme" and p' e
    using setPlane_throws [OF that] by simp
  from a b c d show ?thesis by blast
qed

theorem setSeries_setPlane_order_witness:
  "currentId (test_writer 1 6) \<noteq> None
   \<and> setSeries 1 (test_writer 1 6) = (Inr (), test_writer 1 0)
   \<and> setSeries 2 (test_writer 1 6) = (Inr (), test_writer 2 0)
   \<and> setSeries 0 (test_writer 1 6) = (Inr (), test_writer 0 0)
   \<and> setSeries 3 (test_writer 1 6) = (Inl (SeriesOutOfOrder 3 1), test_writer 1 6)
   \<and> setPlane 6 (test_writer 1 6) = (Inr (), test_writer 1 6)
   \<and> setPlane 7 (test_writer 1 6) = (Inr (), test_writer 1 7)
   \<and> setPlane 0 (test_writer 1 6) = (Inr (), test_writer 1 0)
   \<and> setPlane 4 (test_writer 1 6) = (Inl (PlaneOutOfOrder 4 6), test_writer 1 6)
   \<and> setPlane 9 (test_writer 1 6) = (Inl (PlaneOutOfOrder 9 6), test_writer 1 6)
   \<and> setSeries 4 (test_writer 1 6) = (Inl (InvalidSeries 4), test_writer 1 6)
   \<and> setPlane 160 (test_writer 1 6) = (Inl (InvalidPlane 160), test_writer 1 6)"
proof -
  have op: "currentId (test_writer 1 6) \<noteq> None"
    and mr: "metadataRetrieve (test_writer 1 6) = Some [test_image, test_image, test_image, test_image]"
    and cur: "series (test_writer 1 6) = 1" "plane (test_writer 1 6) = 6"
    by (simp_all add: test_writer_def)
  have ic: "getImageCount (test_writer 1 6) = Inr 160"
    by (rule test_writer_counts) simp
  have sc: "getSeriesCount (test_writer 1 6) = Inr 4"
    by (rule test_writer_counts) simp
  note ord = setSeries_setPlane_order [OF op, of "[test_image, test_image, test_image, test_image]" _ 160]
  have s: "setSeries 1 (test_writer 1 6) = (Inr (), test_writer 1 0)"
    "setSeries 2 (test_writer 1 6) = (Inr (), test_writer 2 0)"
    "setSeries 0 (test_writer 1 6) = (Inr (), test_writer 0 0)"
    "setSeries 3 (test_writer 1 6) = (Inl (SeriesOutOfOrder 3 1), test_writer 1 6)"
    using ord [of 1, THEN conjunct1] ord [of 2, THEN conjunct1] ord [of 0, THEN conjunct1]
      ord [of 3, THEN conjunct1]
    by (simp_all add: mr cur) (simp_all add: test_writer_def)
  have p: "setPlane 6 (test_writer 1 6) = (Inr (), test_writer 1 6)"
    "setPlane 7 (test_writer 1 6) = (Inr (), test_writer 1 7)"
    "setPlane 0 (test_writer 1 6) = (Inr (), test_writer 1 0)"
    "setPlane 4 (test_writer 1 6) = (Inl (PlaneOutOfOrder 4 6), test_writer 1 6)"
    "setPlane 9 (test_writer 1 6) = (Inl (PlaneOutOfOrder 9 6), test_writer 1 6)"
    using ord [of _ 6, THEN conjunct2, THEN conjunct1] ord [of _ 7, THEN conjunct2, THEN conjunct1]
      ord [of _ 0, THEN conjunct2, THEN conjunct1] ord [of _ 4, THEN conjunct2, THEN conjunct1]
      ord [of _ 9, THEN conjunct2, THEN conjunct1]
    by (simp_all add: ic cur) (simp_all add: test_writer_def)
  have fs: "fst (setSeries 4 (test_writer 1 6)) = Inl (InvalidSeries 4)"
    by (simp add: setSeries_def sc assertId_def) (simp add: test_writer_def)
  have fp: "fst (setPlane 160 (test_writer 1 6)) = Inl (InvalidPlane 160)"
    by (simp add: setPlane_def ic assertId_def) (simp add: test_writer_def)
  have t: "setSeries 4 (test_writer 1 6) = (Inl (InvalidSeries 4), test_writer 1 6)"
    "setPlane 160 (test_writer 1 6) = (Inl (InvalidPlane 160), test_writer 1 6)"
    using ord [of 0 0, THEN conjunct2, THEN conjunct2, THEN conjunct1, rule_format, OF fs]
      ord [of 0 0, THEN conjunct2, THEN conjunct2, THEN conjunct2, rule_format, OF fp] fs fp
    by (simp_all add: prod_eq_iff)
  from op s p t show ?thesis by simp
qed

section \<open>OMETIFFWriter: state\<close>

datatype TileType = STRIP | TILE

text \<open>
  The directory being written, as far as \<open>setupIFD\<close> lays out its geometry; the fields
  for pixel type, samples, photometric interpretation and compression are left out.
\<close>

record IFD =
  imageWidth :: u32
  imageHeight :: u32
  tileType :: TileType
  tileWidth :: u32
  tileHeight :: u32

text \<open>
  An open TIFF: its current directory, and the bytes of the file as the TIFF library
  leaves them on disk when the handle is closed.
\<close>

record TIFF =
  currentDirectory :: IFD
  fileBytes :: "u8 list"

record TIFFState =
  uuid :: string
  tiff :: TIFF
  ifdCount :: dimension_size_type

datatype PlaneStatus = ABSENT | PRESENT | UNKNOWN

record OMETIFFPlane =
  planeId :: path
  planeIndex :: dimension_size_type
  certain :: bool
  status :: PlaneStatus

text \<open>
  \<open>tiffs\<close> is the map from path to TIFF state, kept as the list of its entries in key
  order; \<open>currentTIFF\<close> is an iterator into it, \<open>None\<close> standing for \<open>tiffs.end()\<close>.
  \<open>seriesState\<close> holds the planes of each series; \<open>omeMeta\<close> is the writer's own copy of the
  metadata, a null pointer until \<open>setId\<close> has run.
\<close>

record OMETIFFWriter = FormatWriter +
  tiffs :: "(path \<times> TIFFState) list"
  currentTIFF :: "path option"
  seriesState :: "OMETIFFPlane list list"
  omeMeta :: "MetadataRetrieve option"

text \<open>Dereferencing \<open>currentTIFF\<close>; the end iterator cannot be dereferenced.\<close>

definition currentState :: "'a OMETIFFWriter_scheme \<Rightarrow> error + TIFFState" where
  "currentState w =
     (case currentTIFF w of None \<Rightarrow> Inl NullPointer
      | Some p \<Rightarrow> (case map_of (tiffs w) p of None \<Rightarrow> Inl NullPointer | Some st \<Rightarrow> Inr st))"

section \<open>Tile size accessors\<close>

definition FormatWriter_getTileSizeX :: "'a FormatWriter_scheme \<Rightarrow> error + dimension_size_type" where
  "FormatWriter_getTileSizeX w =
     (case tile_size_x w of
        None \<Rightarrow>
          (case metadataRetrieve w of
             None \<Rightarrow> Inl MetadataStoreNull
           | Some mr \<Rightarrow>
               if currentId w \<noteq> None then getSizeX w
               else andThen (getPixelsSizeX mr 0) (\<lambda>v. Inr (ucast v)))
      | Some v \<Rightarrow> Inr v)"

definition FormatWriter_getTileSizeY :: "'a FormatWriter_scheme \<Rightarrow> error + dimension_size_type" where
  "FormatWriter_getTileSizeY w =
     (case tile_size_y w of
        None \<Rightarrow>
          (case metadataRetrieve w of
             None \<Rightarrow> Inl MetadataStoreNull
           | Some mr \<Rightarrow>
               if currentId w \<noteq> None then getSizeX w
               else andThen (getPixelsSizeX mr 0) (\<lambda>v. Inr (ucast v)))
      | Some v \<Rightarrow> Inr v)"

definition OMETIFFWriter_getTileSizeX :: "'a OMETIFFWriter_scheme \<Rightarrow> error + dimension_size_type" where
  "OMETIFFWriter_getTileSizeX w =
     (if currentId w \<noteq> None \<and>
         (tile_size_x w = None \<or> (tile_size_x w \<noteq> None \<and> the (tile_size_x w) \<noteq> 0))
      then andThen (currentState w) (\<lambda>st.
             let ifd = currentDirectory (tiff st) in Inr (ucast (tileWidth ifd)))
      else FormatWriter_getTileSizeX w)"

definition OMETIFFWriter_getTileSizeY :: "'a OMETIFFWriter_scheme \<Rightarrow> error + dimension_size_type" where
  "OMETIFFWriter_getTileSizeY w =
     (if currentId w \<noteq> None \<and>
         (tile_size_y w = None \<or> (tile_size_y w \<noteq> None \<and> the (tile_size_y w) \<noteq> 0))
      then andThen (currentState w) (\<lambda>st.
             let ifd = currentDirectory (tiff st) in Inr (ucast (tileWidth ifd)))
      else FormatWriter_getTileSizeY w)"

section \<open>setupIFD: the geometry of the current directory\<close>

text \<open>
  The part of \<open>setupIFD\<close> that sets image width and height and chooses between strips and
  tiles, applied to the current directory of the current TIFF. The sizes narrow to the
  32-bit fields of the directory.
\<close>

definition setupIFD_geometry ::
  "dimension_size_type \<Rightarrow> dimension_size_type \<Rightarrow> dimension_size_type option \<Rightarrow>
   dimension_size_type option \<Rightarrow> IFD \<Rightarrow> error + IFD" where
  "setupIFD_geometry sizeX sizeY tsx tsy ifd =
     (let ifd = ifd\<lparr>imageWidth := ucast sizeX, imageHeight := ucast sizeY\<rparr> in
      if sizeX = 0 then Inl InvalidState
      else if tsx = None \<and> tsy \<noteq> None then
        (if the tsy \<noteq> 0
         then Inr (ifd\<lparr>tileType := STRIP, tileWidth := ucast sizeX, tileHeight := ucast (the tsy)\<rparr>)
         else Inr (ifd\<lparr>tileType := STRIP, tileWidth := ucast sizeX, tileHeight := 1\<rparr>))
      else if tsx \<noteq> None \<and> tsy \<noteq> None then
        (if the tsx \<noteq> 0 \<and> the tsy \<noteq> 0
         then Inr (ifd\<lparr>tileType := TILE, tileWidth := ucast (the tsx), tileHeight := ucast (the tsy)\<rparr>)
         else Inr (ifd\<lparr>tileType := STRIP, tileWidth := ucast sizeX, tileHeight := 1\<rparr>))
      else if sizeX < 2048 then
        (let height = (65536 :: u32) div ucast sizeX;
             height = (if height = 0 then 1 else height)
         in Inr (ifd\<lparr>tileType := STRIP, tileWidth := ucast sizeX, tileHeight := height\<rparr>))
      else Inr (ifd\<lparr>tileType := TILE, tileWidth := 256, tileHeight := 256\<rparr>))"

definition setupIFD :: "'a OMETIFFWriter_scheme \<Rightarrow> error + 'a OMETIFFWriter_scheme" where
  "setupIFD w =
     andThen (currentState w) (\<lambda>st.
     andThen (getSizeX w) (\<lambda>sizeX.
     andThen (getSizeY w) (\<lambda>sizeY.
     andThen (setupIFD_geometry sizeX sizeY (tile_size_x w) (tile_size_y w)
                (currentDirectory (tiff st))) (\<lambda>ifd.
       Inr (w\<lparr>tiffs := map (\<lambda>(p, s). if Some p = currentTIFF w
                                    then (p, s\<lparr>tiff := (tiff s)\<lparr>currentDirectory := ifd\<rparr>\<rparr>)
                                    else (p, s)) (tiffs w)\<rparr>)))))"

subsection \<open>C8: the tile height accessor returns the tile width\<close>

text \<open>
  A writer just opened on the test image, with no tile size set: a fresh TIFF whose
  current directory \<open>setupIFD\<close> then lays out. The image is 512 pixels wide, so the
  directory gets strips 512 wide and 65536 / 512 = 128 rows high.
\<close>

definition fresh_IFD :: IFD where
  "fresh_IFD = \<lparr>imageWidth = 0, imageHeight = 0, tileType = STRIP, tileWidth = 0, tileHeight = 0\<rparr>"

definition opened_writer :: OMETIFFWriter where
  "opened_writer = FormatWriter.extend (test_writer 0 0)
     (OMETIFFWriter.fields
        [(''output.test'', \<lparr>uuid = ''u'', tiff = \<lparr>currentDirectory = fresh_IFD, fileBytes = []\<rparr>,
                             ifdCount = 0\<rparr>)]
        (Some ''output.test'') [] (Some [test_image, test_image, test_image, test_image]))"

definition strip_IFD :: IFD where
  "strip_IFD = \<lparr>imageWidth = 512, imageHeight = 1024, tileType = STRIP, tileWidth = 512,
     tileHeight = 128\<rparr>"

definition strip_writer :: OMETIFFWriter where
  "strip_writer = opened_writer\<lparr>tiffs :=
     [(''output.test'', \<lparr>uuid = ''u'', tiff = \<lparr>currentDirectory = strip_IFD, fileBytes = []\<rparr>,
                          ifdCount = 0\<rparr>)]\<rparr>"

lemma getTileSize_before_setId:
  assumes "currentId w = None" and "tile_size_x w = None" and "tile_size_y w = None"
    and "metadataRetrieve w = Some mr" and "mr \<noteq> []"
  shows "OMETIFFWriter_getTileSizeX w = Inr (ucast (pixelsSizeX (mr ! 0)))"
    and "OMETIFFWriter_getTileSizeY w = Inr (ucast (pixelsSizeX (mr ! 0)))"
  using assms
  by (simp_all add: OMETIFFWriter_getTileSizeX_def OMETIFFWriter_getTileSizeY_def
      FormatWriter_getTileSizeX_def FormatWriter_getTileSizeY_def getPixelsSizeX_def getImage_def)

lemma getTileSize_after_setId:
  assumes "currentId w \<noteq> None" and "tile_size_x w = None" and "tile_size_y w = None"
    and "currentState w = Inr st"
  shows "OMETIFFWriter_getTileSizeX w = Inr (ucast (tileWidth (currentDirectory (tiff st))))"
    and "OMETIFFWriter_getTileSizeY w = Inr (ucast (tileWidth (currentDirectory (tiff st))))"
  using assms
  by (simp_all add: OMETIFFWriter_getTileSizeX_def OMETIFFWriter_getTileSizeY_def)

lemma opened_writer_sizes:
  "getSizeX opened_writer = Inr 512" "getSizeY opened_writer = Inr 1024"
  by (simp_all add: opened_writer_def test_writer_def FormatWriter.extend_def
      OMETIFFWriter.fields_def getSizeX_def getSizeY_def currentLevel_def getSeries_def
      getResolution_def assertId_def at_def)

lemma opened_writer_state:
  "currentState opened_writer =
     Inr \<lparr>uuid = ''u'', tiff = \<lparr>currentDirectory = fresh_IFD, fileBytes = []\<rparr>, ifdCount = 0\<rparr>"
  by (simp add: opened_writer_def test_writer_def FormatWriter.extend_def
      OMETIFFWriter.fields_def currentState_def)

lemma geometry_512:
  "setupIFD_geometry 512 1024 None None fresh_IFD = Inr strip_IFD"
  by (simp add: setupIFD_geometry_def fresh_IFD_def strip_IFD_def Let_def)

text \<open>
  C8. After \<open>setId\<close>, with no tile size set, the current directory has tile width 512
  and tile height 128; \<open>getTileSizeX\<close> returns 512, and \<open>getTileSizeY\<close> returns 512 as
  well, the tile width, not the tile height 128.
\<close>

theorem getTileSizeY_after_setId_is_tile_width:
  "setupIFD opened_writer = Inr strip_writer
   \<and> currentState strip_writer =
       Inr \<lparr>uuid = ''u'', tiff = \<lparr>currentDirectory = strip_IFD, fileBytes = []\<rparr>, ifdCount = 0\<rparr>
   \<and> tileWidth strip_IFD = 512 \<and> tileHeight strip_IFD = 128
   \<and> tile_size_x strip_writer = None \<and> tile_size_y strip_writer = None
   \<and> currentId strip_writer \<noteq> None
   \<and> OMETIFFWriter_getTileSizeX strip_writer = Inr 512
   \<and> OMETIFFWriter_getTileSizeY strip_writer = Inr 512"
proof -
  have tsz: "tile_size_x opened_writer = None" "tile_size_y opened_writer = None"
    "currentTIFF opened_writer = Some ''output.test''"
    by (simp_all add: opened_writer_def test_writer_def FormatWriter.extend_def
        OMETIFFWriter.fields_def)
  have a: "setupIFD opened_writer = Inr strip_writer"
    by (simp add: setupIFD_def opened_writer_state opened_writer_sizes tsz geometry_512)
      (simp add: strip_writer_def opened_writer_def FormatWriter.extend_def
        OMETIFFWriter.fields_def)
  have b: "currentState strip_writer =
       Inr \<lparr>uuid = ''u'', tiff = \<lparr>currentDirectory = strip_IFD, fileBytes = []\<rparr>, ifdCount = 0\<rparr>"
    by (simp add: strip_writer_def opened_writer_def FormatWriter.extend_def
        OMETIFFWriter.fields_def currentState_def)
  have c: "tile_size_x strip_writer = None" "tile_size_y strip_writer = None"
    "currentId strip_writer \<noteq> None"
    by (simp_all add: strip_writer_def opened_writer_def test_writer_def FormatWriter.extend_def
        OMETIFFWriter.fields_def)
  have d: "tileWidth strip_IFD = 512" "tileHeight strip_IFD = 128"
    by (simp_all add: strip_IFD_def)
  have e: "OMETIFFWriter_getTileSizeX strip_writer = Inr 512"
    "OMETIFFWriter_getTileSizeY strip_writer = Inr 512"
    using getTileSize_after_setId [OF c(3) c(1) c(2) b] by (simp_all add: d)
  from a b c d e show ?thesis by simp
qed

section \<open>Plane index and Z, C, T coordinates\<close>

text \<open>
  Modelled from the spec: \<open>ome::files::getIndex\<close> and \<open>ome::files::getZCTCoords\<close>, which
  the methods of the writer and the reader call, are defined in FormatTools, which is not
  among the sources. Section 3 (c) of the spec gives the rule: X and Y are innermost, the
  other three axes follow the last three letters of the dimension order, fastest first, and
  the plane index is \<open>stride0 * i0 + stride1 * i1 + stride2 * i2\<close>, where the stride of an
  axis is the product of the extents of the faster axes. Section 4.4 adds that both
  functions fail with \<open>OutOfRange\<close> when an input exceeds its extent.
\<close>

datatype Axis = AxisZ | AxisC | AxisT

fun axes :: "DimensionOrder \<Rightarrow> Axis \<times> Axis \<times> Axis" where
  "axes XYZCT = (AxisZ, AxisC, AxisT)"
| "axes XYZTC = (AxisZ, AxisT, AxisC)"
| "axes XYCTZ = (AxisC, AxisT, AxisZ)"
| "axes XYCZT = (AxisC, AxisZ, AxisT)"
| "axes XYTCZ = (AxisT, AxisC, AxisZ)"
| "axes XYTZC = (AxisT, AxisZ, AxisC)"

text \<open>The component of a \<open>(z, c, t)\<close> triple along an axis.\<close>

fun along :: "Axis \<Rightarrow> nat \<Rightarrow> nat \<Rightarrow> nat \<Rightarrow> nat" where
  "along AxisZ z c t = z"
| "along AxisC z c t = c"
| "along AxisT z c t = t"

text \<open>The value of an axis, given the values \<open>v0\<close>, \<open>v1\<close>, \<open>v2\<close> in rasterisation order.\<close>

definition valueOf :: "Axis \<Rightarrow> Axis \<times> Axis \<times> Axis \<Rightarrow> nat \<Rightarrow> nat \<Rightarrow> nat \<Rightarrow> nat" where
  "valueOf a ord v0 v1 v2 =
     (case ord of (a0, a1, a2) \<Rightarrow> if a = a0 then v0 else if a = a1 then v1 else v2)"

definition getIndex ::
  "DimensionOrder \<Rightarrow> nat \<Rightarrow> nat \<Rightarrow> nat \<Rightarrow> nat \<Rightarrow> nat \<Rightarrow> nat \<Rightarrow> nat \<Rightarrow> error + nat" where
  "getIndex order zSize cSize tSize num z c t =
     (if z \<ge> zSize \<or> c \<ge> cSize \<or> t \<ge> tSize then Inl OutOfRange
      else case axes order of (a0, a1, a2) \<Rightarrow>
        let len0 = along a0 zSize cSize tSize;
            len1 = along a1 zSize cSize tSize;
            v0 = along a0 z c t;
            v1 = along a1 z c t;
            v2 = along a2 z c t
        in Inr (v0 + len0 * v1 + len0 * len1 * v2))"

definition getZCTCoords ::
  "DimensionOrder \<Rightarrow> nat \<Rightarrow> nat \<Rightarrow> nat \<Rightarrow> nat \<Rightarrow> nat \<Rightarrow> error + (nat \<times> nat \<times> nat)" where
  "getZCTCoords order zSize cSize tSize num idx =
     (if idx \<ge> num then Inl OutOfRange
      else case axes order of (a0, a1, a2) \<Rightarrow>
        let len0 = along a0 zSize cSize tSize;
            len1 = along a1 zSize cSize tSize;
            v0 = idx mod len0;
            v1 = idx div len0 mod len1;
            v2 = idx div len0 div len1
        in Inr (valueOf AxisZ (a0, a1, a2) v0 v1 v2,
                valueOf AxisC (a0, a1, a2) v0 v1 v2,
                valueOf AxisT (a0, a1, a2) v0 v1 v2))"

subsection \<open>Arithmetic of strides\<close>

lemma stride_fwd:
  fixes v0 v1 v2 l0 l1 :: nat
  assumes "v0 < l0" "v1 < l1"
  shows "(v0 + l0 * v1 + l0 * l1 * v2) mod l0 = v0"
    and "(v0 + l0 * v1 + l0 * l1 * v2) div l0 mod l1 = v1"
    and "(v0 + l0 * v1 + l0 * l1 * v2) div l0 div l1 = v2"
proof -
  have e: "v0 + l0 * v1 + l0 * l1 * v2 = v0 + l0 * (v1 + l1 * v2)"
    by (simp add: algebra_simps)
  show "(v0 + l0 * v1 + l0 * l1 * v2) mod l0 = v0"
    using assms by (simp add: e)
  have d: "(v0 + l0 * v1 + l0 * l1 * v2) div l0 = v1 + l1 * v2"
    using assms by (simp add: e)
  show "(v0 + l0 * v1 + l0 * l1 * v2) div l0 mod l1 = v1"
    using assms by (simp add: d)
  show "(v0 + l0 * v1 + l0 * l1 * v2) div l0 div l1 = v2"
    using assms by (simp add: d)
qed

lemma stride_bound:
  fixes v0 v1 v2 l0 l1 l2 :: nat
  assumes "v0 < l0" "v1 < l1" "v2 < l2"
  shows "v0 + l0 * v1 + l0 * l1 * v2 < l0 * l1 * l2"
proof -
  have "v1 + l1 * v2 + 1 \<le> l1 * (v2 + 1)" using assms by simp
  also have "\<dots> \<le> l1 * l2" using assms by (intro mult_le_mono2) simp
  finally have a: "v1 + l1 * v2 + 1 \<le> l1 * l2" .
  have "v0 + l0 * (v1 + l1 * v2) + 1 \<le> l0 * (v1 + l1 * v2 + 1)" using assms by simp
  also have "\<dots> \<le> l0 * (l1 * l2)" using a by (rule mult_le_mono2)
  finally show ?thesis by (simp add: algebra_simps)
qed

lemma stride_bwd:
  fixes i l0 l1 :: nat
  shows "i mod l0 + l0 * (i div l0 mod l1) + l0 * l1 * (i div l0 div l1) = i"
proof -
  have a: "i div l0 mod l1 + l1 * (i div l0 div l1) = i div l0"
    by (rule mod_mult_div_eq)
  have "l0 * (i div l0) = l0 * (i div l0 mod l1 + l1 * (i div l0 div l1))"
    by (simp only: a)
  also have "\<dots> = l0 * (i div l0 mod l1) + l0 * l1 * (i div l0 div l1)"
    by (simp only: distrib_left mult.assoc)
  finally have "l0 * (i div l0 mod l1) + l0 * l1 * (i div l0 div l1) = l0 * (i div l0)"
    by (rule sym)
  moreover have "i mod l0 + l0 * (i div l0) = i"
    by (rule mod_mult_div_eq)
  ultimately show ?thesis by linarith
qed

lemma stride_bwd_bound:
  fixes i l0 l1 l2 :: nat
  assumes "i < l0 * l1 * l2"
  shows "i mod l0 < l0" "i div l0 mod l1 < l1" "i div l0 div l1 < l2"
proof -
  from assms have p: "0 < l0" "0 < l1" by (auto intro: Nat.gr0I)
  show "i mod l0 < l0" using p by simp
  show "i div l0 mod l1 < l1" using p by simp
  show "i div l0 div l1 < l2"
    using assms p by (simp add: div_mult2_eq [symmetric] less_mult_imp_div_less mult.commute)
qed

subsection \<open>C3: getIndex and getZCTCoords are inverse to each other\<close>

lemma getIndex_then_getZCTCoords:
  assumes "z < zSize" and "c < cSize" and "t < tSize"
  shows "\<exists>i. getIndex order zSize cSize tSize (zSize * cSize * tSize) z c t = Inr i
           \<and> i < zSize * cSize * tSize
           \<and> getZCTCoords order zSize cSize tSize (zSize * cSize * tSize) i = Inr (z, c, t)"
proof (cases order)
  case XYZCT
  show ?thesis
    using assms stride_bound [of z zSize c cSize t tSize] stride_fwd [of z zSize c cSize t]
    by (simp add: XYZCT getIndex_def getZCTCoords_def valueOf_def Let_def)
next
  case XYZTC
  show ?thesis
    using assms stride_bound [of z zSize t tSize c cSize] stride_fwd [of z zSize t tSize c]
    by (simp add: XYZTC getIndex_def getZCTCoords_def valueOf_def Let_def mult_ac)
next
  case XYCTZ
  show ?thesis
    using assms stride_bound [of c cSize t tSize z zSize] stride_fwd [of c cSize t tSize z]
    by (simp add: XYCTZ getIndex_def getZCTCoords_def valueOf_def Let_def mult_ac)
next
  case XYCZT
  show ?thesis
    using assms stride_bound [of c cSize z zSize t tSize] stride_fwd [of c cSize z zSize t]
    by (simp add: XYCZT getIndex_def getZCTCoords_def valueOf_def Let_def mult_ac)
next
  case XYTCZ
  show ?thesis
    using assms stride_bound [of t tSize c cSize z zSize] stride_fwd [of t tSize c cSize z]
    by (simp add: XYTCZ getIndex_def getZCTCoords_def valueOf_def Let_def mult_ac)
next
  case XYTZC
  show ?thesis
    using assms stride_bound [of t tSize z zSize c cSize] stride_fwd [of t tSize z zSize c]
    by (simp add: XYTZC getIndex_def getZCTCoords_def valueOf_def Let_def mult_ac)
qed

lemma getZCTCoords_then_getIndex:
  assumes "i < zSize * cSize * tSize"
  shows "\<exists>z c t. getZCTCoords order zSize cSize tSize (zSize * cSize * tSize) i = Inr (z, c, t)
           \<and> z < zSize \<and> c < cSize \<and> t < tSize
           \<and> getIndex order zSize cSize tSize (zSize * cSize * tSize) z c t = Inr i"
proof (cases order)
  case XYZCT
  show ?thesis
    using assms stride_bwd_bound [of i zSize cSize tSize] stride_bwd [of i zSize cSize]
    by (simp add: XYZCT getIndex_def getZCTCoords_def valueOf_def Let_def)
next
  case XYZTC
  have "i < zSize * tSize * cSize" using assms by (simp add: mult_ac)
  then show ?thesis
    using assms stride_bwd_bound [of i zSize tSize cSize] stride_bwd [of i zSize tSize]
    by (simp add: XYZTC getIndex_def getZCTCoords_def valueOf_def Let_def)
next
  case XYCTZ
  have "i < cSize * tSize * zSize" using assms by (simp add: mult_ac)
  then show ?thesis
    using assms stride_bwd_bound [of i cSize tSize zSize] stride_bwd [of i cSize tSize]
    by (simp add: XYCTZ getIndex_def getZCTCoords_def valueOf_def Let_def)
next
  case XYCZT
  have "i < cSize * zSize * tSize" using assms by (simp add: mult_ac)
  then show ?thesis
    using assms stride_bwd_bound [of i cSize zSize tSize] stride_bwd [of i cSize zSize]
    by (simp add: XYCZT getIndex_def getZCTCoords_def valueOf_def Let_def)
next
  case XYTCZ
  have "i < tSize * cSize * zSize" using assms by (simp add: mult_ac)
  then show ?thesis
    using assms stride_bwd_bound [of i tSize cSize zSize] stride_bwd [of i tSize cSize]
    by (simp add: XYTCZ getIndex_def getZCTCoords_def valueOf_def Let_def)
next
  case XYTZC
  have "i < tSize * zSize * cSize" using assms by (simp add: mult_ac)
  then show ?thesis
    using assms stride_bwd_bound [of i tSize zSize cSize] stride_bwd [of i tSize zSize]
    by (simp add: XYTZC getIndex_def getZCTCoords_def valueOf_def Let_def)
qed

text \<open>
  C3. For each of the six dimension orders and all sizes of at least 1, with the image
  count \<open>sizeZ * effectiveSizeC * sizeT\<close>: every \<open>(z, c, t)\<close> within the sizes has a plane
  index, below the image count, from which \<open>getZCTCoords\<close> gives \<open>(z, c, t)\<close> back; and
  every index below the image count has coordinates, within the sizes, from which
  \<open>getIndex\<close> gives the index back. Neither function fails on such inputs.
\<close>

theorem getIndex_getZCTCoords_inverse:
  assumes "zSize \<ge> 1" and "cSize \<ge> 1" and "tSize \<ge> 1"
  shows "(\<forall>z c t. z < zSize \<and> c < cSize \<and> t < tSize \<longrightarrow>
            (\<exists>i. getIndex order zSize cSize tSize (zSize * cSize * tSize) z c t = Inr i
                 \<and> i < zSize * cSize * tSize
                 \<and> getZCTCoords order zSize cSize tSize (zSize * cSize * tSize) i = Inr (z, c, t)))
       \<and> (\<forall>i. i < zSize * cSize * tSize \<longrightarrow>
            (\<exists>z c t. getZCTCoords order zSize cSize tSize (zSize * cSize * tSize) i = Inr (z, c, t)
                 \<and> z < zSize \<and> c < cSize \<and> t < tSize
                 \<and> getIndex order zSize cSize tSize (zSize * cSize * tSize) z c t = Inr i))"
  using getIndex_then_getZCTCoords [of _ zSize _ cSize _ tSize order]
    getZCTCoords_then_getIndex [of _ zSize cSize tSize order]
  by blast

text \<open>
  The series of the reader's unit test: 20 Z sections, 5 channels, 2 time points in order
  XYZCT; the test expects index 143 for \<open>(3, 2, 1)\<close>.
\<close>

theorem getIndex_getZCTCoords_inverse_witness:
  "(1 :: nat) \<le> 20 \<and> (1 :: nat) \<le> 5 \<and> (1 :: nat) \<le> 2
   \<and> getIndex XYZCT 20 5 2 (20 * 5 * 2) 3 2 1 = Inr 143
   \<and> getZCTCoords XYZCT 20 5 2 (20 * 5 * 2) 143 = Inr (3, 2, 1)
   \<and> (\<exists>i. getIndex XYZCT 20 5 2 (20 * 5 * 2) 3 2 1 = Inr i
          \<and> getZCTCoords XYZCT 20 5 2 (20 * 5 * 2) i = Inr (3, 2, 1))
   \<and> (\<exists>z c t. getZCTCoords XYZCT 20 5 2 (20 * 5 * 2) 143 = Inr (z, c, t)
          \<and> getIndex XYZCT 20 5 2 (20 * 5 * 2) z c t = Inr 143)"
proof -
  have ev: "getIndex XYZCT 20 5 2 (20 * 5 * 2) 3 2 1 = Inr 143"
    "getZCTCoords XYZCT 20 5 2 (20 * 5 * 2) 143 = Inr (3, 2, 1)"
    by (simp_all add: getIndex_def getZCTCoords_def valueOf_def)
  have h: "(1 :: nat) \<le> 20" "(1 :: nat) \<le> 5" "(1 :: nat) \<le> 2"
    by simp_all
  note inst = getIndex_getZCTCoords_inverse [OF h, of XYZCT]
  have a: "\<exists>i. getIndex XYZCT 20 5 2 (20 * 5 * 2) 3 2 1 = Inr i
          \<and> getZCTCoords XYZCT 20 5 2 (20 * 5 * 2) i = Inr (3, 2, 1)"
    using inst [THEN conjunct1, rule_format, of 3 2 1] by auto
  have b: "\<exists>z c t. getZCTCoords XYZCT 20 5 2 (20 * 5 * 2) 143 = Inr (z, c, t)
          \<and> getIndex XYZCT 20 5 2 (20 * 5 * 2) z c t = Inr 143"
    using inst [THEN conjunct2, rule_format, of 143] by auto
  from ev a b show ?thesis by simp
qed

section \<open>Patching the ImageDescription of a closed TIFF\<close>

subsection \<open>Bytes and integers\<close>

datatype EndianType = ENDIAN_BIG | ENDIAN_LITTLE | ENDIAN_NATIVE

text \<open>
  The value of a run of bytes, least significant byte first, and the \<open>n\<close> low bytes of a
  value; a value that does not fit is truncated, as the conversion to the narrower unsigned
  type truncates it.
\<close>

fun le_value :: "u8 list \<Rightarrow> nat" where
  "le_value [] = 0"
| "le_value (b # bs) = unat b + 256 * le_value bs"

fun le_bytes :: "nat \<Rightarrow> nat \<Rightarrow> u8 list" where
  "le_bytes 0 v = []"
| "le_bytes (Suc n) v = of_nat (v mod 256) # le_bytes n (v div 256)"

text \<open>The native order is taken to be little-endian; \<open>saveComment\<close> never uses it.\<close>

definition decode :: "EndianType \<Rightarrow> u8 list \<Rightarrow> nat" where
  "decode endian bs = (case endian of ENDIAN_BIG \<Rightarrow> le_value (rev bs) | _ \<Rightarrow> le_value bs)"

definition encode :: "EndianType \<Rightarrow> nat \<Rightarrow> nat \<Rightarrow> u8 list" where
  "encode endian n v = (case endian of ENDIAN_BIG \<Rightarrow> rev (le_bytes n v) | _ \<Rightarrow> le_bytes n v)"

subsection \<open>The file as a stream\<close>

text \<open>
  The file is its list of bytes. Offsets are \<open>uint64_t\<close> values, kept as naturals below
  \<open>2 ^ 64\<close> with the wrap-around written out; as a stream offset a value of \<open>2 ^ 63\<close> or
  more is negative, and seeking to it fails. A read needs all its bytes to lie inside the
  file. A write replaces bytes in place and extends the file where it runs past the end.
\<close>

definition read_here :: "nat \<Rightarrow> u8 list \<Rightarrow> nat \<Rightarrow> EndianType \<Rightarrow> error + nat" where
  "read_here n f pos endian =
     (if pos + n \<le> length f then Inr (decode endian (take n (drop pos f))) else Inl ReadFailed)"

definition read_raw :: "nat \<Rightarrow> u8 list \<Rightarrow> nat \<Rightarrow> EndianType \<Rightarrow> error + nat" where
  "read_raw n f off endian =
     (if off \<ge> 2 ^ 63 then Inl BadStream else read_here n f off endian)"

definition overwrite :: "u8 list \<Rightarrow> nat \<Rightarrow> u8 list \<Rightarrow> u8 list" where
  "overwrite f off bs =
     take off (f @ replicate (off - length f) 0) @ bs @ drop (off + length bs) f"

definition write_raw :: "nat \<Rightarrow> u8 list \<Rightarrow> nat \<Rightarrow> EndianType \<Rightarrow> nat \<Rightarrow> error + u8 list" where
  "write_raw n f off endian v =
     (if off \<ge> 2 ^ 63 then Inl BadStream else Inr (overwrite f off (encode endian n v)))"

text \<open>
  \<open>in >> c\<close> for a character: skip white space (space, and the control characters 9 to
  13), then take one byte. The result is the byte and the position after it; \<open>None\<close> when
  the file ends first.
\<close>

definition isspace :: "u8 \<Rightarrow> bool" where
  "isspace b = (b = 32 \<or> (9 \<le> b \<and> b \<le> 13))"

definition extractChar :: "u8 list \<Rightarrow> nat \<Rightarrow> (u8 \<times> nat) option" where
  "extractChar f pos =
     (case dropWhile isspace (drop pos f) of
        [] \<Rightarrow> None
      | c # _ \<Rightarrow> Some (c, pos + length (takeWhile isspace (drop pos f)) + 1))"

subsection \<open>saveComment\<close>

text \<open>
  The header: byte order, classic or BigTIFF, and the offset of the first directory. When
  the two characters cannot be read they are indeterminate; the call fails then, here with
  the error of an invalid byte order.
\<close>

definition readHeader :: "u8 list \<Rightarrow> error + (EndianType \<times> bool \<times> nat)" where
  "readHeader f =
     (case extractChar f 0 of
        None \<Rightarrow> Inl InvalidEndianHeader
      | Some (c0, p0) \<Rightarrow>
     (case extractChar f p0 of
        None \<Rightarrow> Inl InvalidEndianHeader
      | Some (c1, p1) \<Rightarrow>
     andThen (if c0 = 73 \<and> c1 = 73 then Inr ENDIAN_LITTLE
              else if c0 = 77 \<and> c1 = 77 then Inr ENDIAN_BIG
              else Inl InvalidEndianHeader) (\<lambda>endian.
     andThen (read_here 2 f p1 endian) (\<lambda>version.
     andThen (if version = 0x2A then Inr False
              else if version = 0x2B then Inr True
              else Inl (InvalidVersion (of_nat version))) (\<lambda>bigOffsets.
     andThen (if bigOffsets then read_here 2 f (p1 + 2) endian else Inr 4) (\<lambda>offsetSize.
       if offsetSize \<noteq> 4 \<and> offsetSize \<noteq> 8 then Inl (NonstandardOffsetSize (of_nat offsetSize))
       else
     andThen (if bigOffsets then read_raw 8 f 8 endian else read_raw 4 f 4 endian) (\<lambda>ifd0Offset.
       Inr (endian, bigOffsets, ifd0Offset))))))))"

text \<open>The offset of directory entry \<open>i\<close>, in 64-bit arithmetic.\<close>

definition tagOff :: "bool \<Rightarrow> nat \<Rightarrow> nat \<Rightarrow> nat" where
  "tagOff bigOffsets ifd0Offset i =
     (if bigOffsets then ifd0Offset + 8 + (i * 20) else ifd0Offset + 2 + (i * 12)) mod 2 ^ 64"

definition TIFFTAG_IMAGEDESCRIPTION :: nat where
  "TIFFTAG_IMAGEDESCRIPTION = 270"

definition TIFF_ASCII :: nat where
  "TIFF_ASCII = 2"

definition default_description :: string where
  "default_description = ''OME-TIFF''"

text \<open>
  The sizes that differ between classic TIFF and BigTIFF: the entry count at the start of
  a directory (2 or 8 bytes), a directory entry (12 or 20 bytes), and the count and offset
  fields of an entry (4 or 8 bytes each).
\<close>

definition fieldSize :: "bool \<Rightarrow> nat" where
  "fieldSize bigOffsets = (if bigOffsets then 8 else 4)"

text \<open>
  The body of the loop over the directory entries, for entry \<open>i\<close>: the file after it, and
  whether the entry is an ImageDescription (which sets \<open>found\<close>); an entry with another tag
  is passed over.
\<close>

definition patchEntry ::
  "EndianType \<Rightarrow> bool \<Rightarrow> nat \<Rightarrow> nat \<Rightarrow> nat \<Rightarrow> nat \<Rightarrow> u8 list \<Rightarrow> error + (u8 list \<times> bool)" where
  "patchEntry endian bigOffsets ifd0Offset descOffset xmlSize i f =
     (let off = tagOff bigOffsets ifd0Offset i in
      andThen (read_raw 2 f ((off + 0) mod 2 ^ 64) endian) (\<lambda>tagid.
      andThen (read_raw 2 f ((off + 2) mod 2 ^ 64) endian) (\<lambda>tagtype.
        if tagid \<noteq> TIFFTAG_IMAGEDESCRIPTION then Inr (f, False)
        else if tagtype \<noteq> TIFF_ASCII then Inl (InvalidDescriptionType (of_nat tagtype))
        else
      andThen (if bigOffsets then read_raw 8 f ((off + 4) mod 2 ^ 64) endian
               else read_raw 4 f ((off + 4) mod 2 ^ 64) endian) (\<lambda>count.
        if count \<noteq> length default_description + 1 then Inl DescriptionSizeIncorrect
        else
      andThen (if bigOffsets
               then andThen (write_raw 8 f ((off + 4) mod 2 ^ 64) endian (xmlSize + 1)) (\<lambda>f'.
                      write_raw 8 f' ((off + 12) mod 2 ^ 64) endian descOffset)
               else andThen (write_raw 4 f ((off + 4) mod 2 ^ 64) endian (xmlSize + 1)) (\<lambda>f'.
                      write_raw 4 f' ((off + 8) mod 2 ^ 64) endian descOffset)) (\<lambda>f''.
        Inr (f'', True))))))"

text \<open>The loop, on the indexes still to visit; the state is the file and the flag \<open>found\<close>.\<close>

fun patchEntries ::
  "EndianType \<Rightarrow> bool \<Rightarrow> nat \<Rightarrow> nat \<Rightarrow> nat \<Rightarrow> nat list \<Rightarrow> u8 list \<times> bool \<Rightarrow> error + (u8 list \<times> bool)" where
  "patchEntries endian bigOffsets ifd0Offset descOffset xmlSize [] st = Inr st"
| "patchEntries endian bigOffsets ifd0Offset descOffset xmlSize (i # rest) (f, found) =
     andThen (patchEntry endian bigOffsets ifd0Offset descOffset xmlSize i f) (\<lambda>(f', hit).
       patchEntries endian bigOffsets ifd0Offset descOffset xmlSize rest (f', found \<or> hit))"

definition readEntries :: "bool \<Rightarrow> u8 list \<Rightarrow> nat \<Rightarrow> EndianType \<Rightarrow> error + nat" where
  "readEntries bigOffsets f ifd0Offset endian =
     (if bigOffsets then read_raw 8 f ifd0Offset endian else read_raw 2 f ifd0Offset endian)"

definition xmlBytes :: "string \<Rightarrow> u8 list" where
  "xmlBytes xml = map of_char xml"

definition saveComment :: "u8 list \<Rightarrow> string \<Rightarrow> error + u8 list" where
  "saveComment f xml =
     andThen (readHeader f) (\<lambda>(endian, bigOffsets, ifd0Offset).
       let descOffset = length f;
           f1 = f @ xmlBytes xml @ [0]
       in
     andThen (readEntries bigOffsets f1 ifd0Offset endian) (\<lambda>entries.
     andThen (patchEntries endian bigOffsets ifd0Offset descOffset (length xml) [0..<entries]
                (f1, False)) (\<lambda>(f2, found).
       if \<not> found then Inl DescriptionNotFound else Inr f2)))"


subsection \<open>Encoding and decoding\<close>

lemma length_le_bytes [simp]: "length (le_bytes n v) = n"
  by (induction n arbitrary: v) simp_all

lemma le_value_le_bytes: "le_value (le_bytes n v) = v mod 256 ^ n"
proof (induction n arbitrary: v)
  case 0
  show ?case by simp
next
  case (Suc n)
  have "unat (of_nat (v mod 256) :: u8) = v mod 256"
    by (simp add: unat_of_nat take_bit_eq_mod)
  then show ?case
    by (simp add: Suc mod_mult2_eq)
qed

lemma length_encode [simp]: "length (encode endian n v) = n"
  by (cases endian) (simp_all add: encode_def)

lemma decode_encode: "decode endian (encode endian n v) = v mod 256 ^ n"
  by (cases endian) (simp_all add: decode_def encode_def le_value_le_bytes)

subsection \<open>Overwriting inside the file\<close>

lemma overwrite_inside:
  assumes "off + length bs \<le> length f"
  shows "overwrite f off bs = take off f @ bs @ drop (off + length bs) f"
  using assms by (simp add: overwrite_def)

lemma length_overwrite:
  assumes "off + length bs \<le> length f"
  shows "length (overwrite f off bs) = length f"
  using assms by (simp add: overwrite_inside)

lemma nth_overwrite:
  assumes "off + length bs \<le> length f" and "j < length f"
  shows "overwrite f off bs ! j = (if off \<le> j \<and> j < off + length bs then bs ! (j - off) else f ! j)"
  using assms by (auto simp: overwrite_inside nth_append)

lemma slice_eqI:
  assumes "off + n \<le> length f" and "off + n \<le> length g"
    and "\<And>k. k < n \<Longrightarrow> f ! (off + k) = g ! (off + k)"
  shows "take n (drop off f) = take n (drop off g)"
  using assms by (intro nth_equalityI) simp_all

lemma slice_overwrite_same:
  assumes "off + length bs \<le> length f"
  shows "take (length bs) (drop off (overwrite f off bs)) = bs"
  using assms by (simp add: overwrite_inside)

lemma slice_overwrite_other:
  assumes "off + length bs \<le> length f" and "p + n \<le> length f"
    and "p + n \<le> off \<or> off + length bs \<le> p"
  shows "take n (drop p (overwrite f off bs)) = take n (drop p f)"
proof (rule slice_eqI)
  show "p + n \<le> length (overwrite f off bs)"
    using assms by (simp add: length_overwrite)
  show "p + n \<le> length f" by fact
  show "overwrite f off bs ! (p + k) = f ! (p + k)" if "k < n" for k
    using assms that by (subst nth_overwrite) auto
qed


subsection \<open>Directory entries that lie inside the file\<close>

text \<open>
  The layout of a directory at \<open>ifd0Offset\<close>: the entry count, then the entries; a field
  of the file read as an unsigned integer; and the two overwrites of the loop body as one
  function on the file.
\<close>

definition hdrSize :: "bool \<Rightarrow> nat" where
  "hdrSize bigOffsets = (if bigOffsets then 8 else 2)"

definition entrySize :: "bool \<Rightarrow> nat" where
  "entrySize bigOffsets = (if bigOffsets then 20 else 12)"

definition entryOff :: "bool \<Rightarrow> nat \<Rightarrow> nat \<Rightarrow> nat" where
  "entryOff bigOffsets ifd0Offset i = ifd0Offset + hdrSize bigOffsets + i * entrySize bigOffsets"

definition field :: "EndianType \<Rightarrow> u8 list \<Rightarrow> nat \<Rightarrow> nat \<Rightarrow> nat" where
  "field endian f off n = decode endian (take n (drop off f))"

definition patch :: "EndianType \<Rightarrow> bool \<Rightarrow> nat \<Rightarrow> nat \<Rightarrow> u8 list \<Rightarrow> nat \<Rightarrow> u8 list" where
  "patch endian bigOffsets descOffset xmlSize f off =
     overwrite (overwrite f (off + 4) (encode endian (fieldSize bigOffsets) (xmlSize + 1)))
       (off + 4 + fieldSize bigOffsets) (encode endian (fieldSize bigOffsets) descOffset)"

lemma entrySize_fieldSize: "entrySize big = 4 + 2 * fieldSize big"
  by (simp add: entrySize_def fieldSize_def)

lemma fieldSize_pos: "0 < fieldSize big"
  by (simp add: fieldSize_def)

lemma entryOff_less:
  assumes "i < n"
  shows "entryOff big ifd0 i + entrySize big \<le> ifd0 + hdrSize big + n * entrySize big"
proof -
  from assms have "Suc i \<le> n" by simp
  then have "Suc i * entrySize big \<le> n * entrySize big" by (rule mult_le_mono1)
  then show ?thesis by (simp add: entryOff_def)
qed

lemma entryOff_mono:
  assumes "i < k"
  shows "entryOff big ifd0 i + entrySize big \<le> entryOff big ifd0 k"
proof -
  from assms have "Suc i \<le> k" by simp
  then have "Suc i * entrySize big \<le> k * entrySize big" by (rule mult_le_mono1)
  then show ?thesis by (simp add: entryOff_def)
qed

lemma entryOff_disjoint:
  assumes "i \<noteq> k"
  shows "entryOff big ifd0 i + entrySize big \<le> entryOff big ifd0 k
         \<or> entryOff big ifd0 k + entrySize big \<le> entryOff big ifd0 i"
  using assms entryOff_mono [of i k big ifd0] entryOff_mono [of k i big ifd0]
  by (cases "i < k") auto

lemma tagOff_inside:
  assumes "entryOff big ifd0 i < 2 ^ 64"
  shows "tagOff big ifd0 i = entryOff big ifd0 i"
  using assms by (cases big) (simp_all add: tagOff_def entryOff_def hdrSize_def entrySize_def)

lemma read_raw_inside:
  assumes "off + n \<le> length f" and "off < 2 ^ 63"
  shows "read_raw n f off endian = Inr (field endian f off n)"
  using assms by (simp add: read_raw_def read_here_def field_def)

lemma patchEntry_inside:
  assumes inside: "entryOff big ifd0 i + entrySize big \<le> length f"
    and small: "entryOff big ifd0 i + entrySize big < 2 ^ 63"
  shows "patchEntry endian big ifd0 descOffset xmlSize i f =
     (if field endian f (entryOff big ifd0 i) 2 \<noteq> 270 then Inr (f, False)
      else if field endian f (entryOff big ifd0 i + 2) 2 \<noteq> 2
      then Inl (InvalidDescriptionType (of_nat (field endian f (entryOff big ifd0 i + 2) 2)))
      else if field endian f (entryOff big ifd0 i + 4) (fieldSize big) \<noteq> 9
      then Inl DescriptionSizeIncorrect
      else Inr (patch endian big descOffset xmlSize f (entryOff big ifd0 i), True))"
proof -
  let ?off = "entryOff big ifd0 i"
  have es: "entrySize big = 4 + 2 * fieldSize big" by (rule entrySize_fieldSize)
  have lt: "?off + entrySize big < 2 ^ 63" by (rule small)
  have big64: "(2 :: nat) ^ 63 < 2 ^ 64" by simp
  have t: "tagOff big ifd0 i = ?off"
    using lt big64 by (intro tagOff_inside) linarith
  have m: "(tagOff big ifd0 i + k) mod 2 ^ 64 = ?off + k" if "k \<le> entrySize big" for k
    using lt big64 that by (simp add: t)
  have r: "read_raw n f (?off + k) endian = Inr (field endian f (?off + k) n)"
    if "k + n \<le> entrySize big" for k n
    using inside lt that by (intro read_raw_inside) simp_all
  have w: "write_raw n g (?off + k) endian v = Inr (overwrite g (?off + k) (encode endian n v))"
    if "k \<le> entrySize big" for k n g v
    using lt that by (simp add: write_raw_def)
  show ?thesis
  proof (cases big)
    case True
    then have fs: "fieldSize big = 8" "entrySize big = 20"
      by (simp_all add: fieldSize_def entrySize_def)
    have m': "(tagOff big ifd0 i + 0) mod 2 ^ 64 = ?off + 0" "(tagOff big ifd0 i + 2) mod 2 ^ 64 = ?off + 2"
      "(tagOff big ifd0 i + 4) mod 2 ^ 64 = ?off + 4" "(tagOff big ifd0 i + 12) mod 2 ^ 64 = ?off + 12"
      by (rule m, simp add: fs)+
    have r': "read_raw 2 f (?off + 0) endian = Inr (field endian f (?off + 0) 2)"
      "read_raw 2 f (?off + 2) endian = Inr (field endian f (?off + 2) 2)"
      "read_raw 8 f (?off + 4) endian = Inr (field endian f (?off + 4) 8)"
      by (rule r, simp add: fs)+
    have w': "write_raw 8 g (?off + 4) endian v = Inr (overwrite g (?off + 4) (encode endian 8 v))"
      "write_raw 8 g (?off + 12) endian v = Inr (overwrite g (?off + 12) (encode endian 8 v))" for g v
      by (rule w, simp add: fs)+
    have e: "?off + 4 + 8 = ?off + 12" by simp
    show ?thesis
      unfolding patchEntry_def Let_def m' r' w' patch_def fs e
      using True
      by (simp add: TIFFTAG_IMAGEDESCRIPTION_def TIFF_ASCII_def default_description_def
          del: add_2_eq_Suc add_2_eq_Suc')
  next
    case False
    then have fs: "fieldSize big = 4" "entrySize big = 12"
      by (simp_all add: fieldSize_def entrySize_def)
    have m': "(tagOff big ifd0 i + 0) mod 2 ^ 64 = ?off + 0" "(tagOff big ifd0 i + 2) mod 2 ^ 64 = ?off + 2"
      "(tagOff big ifd0 i + 4) mod 2 ^ 64 = ?off + 4" "(tagOff big ifd0 i + 8) mod 2 ^ 64 = ?off + 8"
      by (rule m, simp add: fs)+
    have r': "read_raw 2 f (?off + 0) endian = Inr (field endian f (?off + 0) 2)"
      "read_raw 2 f (?off + 2) endian = Inr (field endian f (?off + 2) 2)"
      "read_raw 4 f (?off + 4) endian = Inr (field endian f (?off + 4) 4)"
      by (rule r, simp add: fs)+
    have w': "write_raw 4 g (?off + 4) endian v = Inr (overwrite g (?off + 4) (encode endian 4 v))"
      "write_raw 4 g (?off + 8) endian v = Inr (overwrite g (?off + 8) (encode endian 4 v))" for g v
      by (rule w, simp add: fs)+
    have e: "?off + 4 + 4 = ?off + 8" by simp
    show ?thesis
      unfolding patchEntry_def Let_def m' r' w' patch_def fs e
      using False
      by (simp add: TIFFTAG_IMAGEDESCRIPTION_def TIFF_ASCII_def default_description_def
          del: add_2_eq_Suc add_2_eq_Suc')
  qed
qed

lemma overwrite_twice:
  assumes "a + length A \<le> b" and "b + length B \<le> length f"
  shows "length (overwrite (overwrite f a A) b B) = length f"
    and "take (length A) (drop a (overwrite (overwrite f a A) b B)) = A"
    and "take (length B) (drop b (overwrite (overwrite f a A) b B)) = B"
    and "p + m \<le> length f \<Longrightarrow> p + m \<le> a \<or> b + length B \<le> p \<Longrightarrow>
         take m (drop p (overwrite (overwrite f a A) b B)) = take m (drop p f)"
proof -
  let ?g = "overwrite f a A"
  have ina: "a + length A \<le> length f" using assms by simp
  have lg: "length ?g = length f" using ina by (rule length_overwrite)
  have inb: "b + length B \<le> length ?g" using assms lg by simp
  show "length (overwrite ?g b B) = length f"
    using length_overwrite [OF inb] lg by simp
  have "take (length A) (drop a (overwrite ?g b B)) = take (length A) (drop a ?g)"
    using inb assms lg by (intro slice_overwrite_other) simp_all
  then show "take (length A) (drop a (overwrite ?g b B)) = A"
    using slice_overwrite_same [OF ina] by simp
  show "take (length B) (drop b (overwrite ?g b B)) = B"
    using inb by (rule slice_overwrite_same)
  show "take m (drop p (overwrite ?g b B)) = take m (drop p f)"
    if pm: "p + m \<le> length f" and out: "p + m \<le> a \<or> b + length B \<le> p"
  proof -
    have "take m (drop p (overwrite ?g b B)) = take m (drop p ?g)"
      using inb pm out assms lg by (intro slice_overwrite_other) auto
    also have "\<dots> = take m (drop p f)"
      using ina pm out assms by (intro slice_overwrite_other) auto
    finally show ?thesis .
  qed
qed

lemma patch_twice:
  assumes "off + entrySize big \<le> length f"
  shows "off + 4 + length (encode endian (fieldSize big) v) \<le> off + 4 + fieldSize big"
    and "off + 4 + fieldSize big + length (encode endian (fieldSize big) w) \<le> length f"
  using assms by (simp_all add: entrySize_fieldSize)

lemma length_patch:
  assumes "off + entrySize big \<le> length f"
  shows "length (patch endian big descOffset xmlSize f off) = length f"
  unfolding patch_def by (rule overwrite_twice(1) [OF patch_twice [OF assms]])

lemma slice_patch_other:
  assumes "off + entrySize big \<le> length f" and "p + m \<le> length f"
    and "p + m \<le> off + 4 \<or> off + entrySize big \<le> p"
  shows "take m (drop p (patch endian big descOffset xmlSize f off)) = take m (drop p f)"
  unfolding patch_def
proof (rule overwrite_twice(4) [OF patch_twice [OF assms(1)] assms(2)])
  show "p + m \<le> off + 4 \<or>
        off + 4 + fieldSize big + length (encode endian (fieldSize big) descOffset) \<le> p"
    using assms(3) by (auto simp: entrySize_fieldSize)
qed

lemma field_patch_other:
  assumes "off + entrySize big \<le> length f" and "p + m \<le> length f"
    and "p + m \<le> off + 4 \<or> off + entrySize big \<le> p"
  shows "field endian (patch endian big descOffset xmlSize f off) p m = field endian f p m"
  using slice_patch_other [OF assms] by (simp add: field_def)

lemma field_patch_count:
  assumes "off + entrySize big \<le> length f"
  shows "field endian (patch endian big descOffset xmlSize f off) (off + 4) (fieldSize big)
         = (xmlSize + 1) mod 256 ^ fieldSize big"
proof -
  have "take (length (encode endian (fieldSize big) (xmlSize + 1)))
          (drop (off + 4) (patch endian big descOffset xmlSize f off))
        = encode endian (fieldSize big) (xmlSize + 1)"
    unfolding patch_def by (rule overwrite_twice(2) [OF patch_twice [OF assms]])
  then have "take (fieldSize big) (drop (off + 4) (patch endian big descOffset xmlSize f off))
        = encode endian (fieldSize big) (xmlSize + 1)"
    by (simp only: length_encode)
  then show ?thesis
    by (simp only: field_def decode_encode)
qed

lemma field_patch_offset:
  assumes "off + entrySize big \<le> length f"
  shows "field endian (patch endian big descOffset xmlSize f off) (off + 4 + fieldSize big)
           (fieldSize big)
         = descOffset mod 256 ^ fieldSize big"
proof -
  have "take (length (encode endian (fieldSize big) descOffset))
          (drop (off + 4 + fieldSize big) (patch endian big descOffset xmlSize f off))
        = encode endian (fieldSize big) descOffset"
    unfolding patch_def by (rule overwrite_twice(3) [OF patch_twice [OF assms]])
  then have "take (fieldSize big) (drop (off + 4 + fieldSize big)
          (patch endian big descOffset xmlSize f off))
        = encode endian (fieldSize big) descOffset"
    by (simp only: length_encode)
  then show ?thesis
    by (simp only: field_def decode_encode)
qed

subsection \<open>The loop over a directory inside the file\<close>

text \<open>
  What a run of the loop that ends without an exception has done, for a directory of \<open>n\<close>
  entries that lies in the first \<open>L\<close> bytes of the file: the length of the file is as
  before; bytes outside the count and offset fields of the entries visited are as before;
  every entry visited that carries the ImageDescription tag had type ASCII and count 9, and
  now holds the new count and offset; \<open>found\<close> is set when there was such an entry.
\<close>

lemma patchEntries_inside:
  assumes dir: "ifd0 + hdrSize big + n * entrySize big \<le> L"
    and L: "L \<le> length g" and small: "L < 2 ^ 63"
    and idx: "set ixs \<subseteq> {..<n}" and dist: "distinct ixs"
    and run: "patchEntries endian big ifd0 descOffset xmlSize ixs (g, fnd) = Inr (g', fnd')"
  shows "length g' = length g
    \<and> (\<forall>p m. p + m \<le> length g \<longrightarrow>
           (\<forall>i \<in> set ixs. p + m \<le> entryOff big ifd0 i + 4 \<or> entryOff big ifd0 i + entrySize big \<le> p) \<longrightarrow>
           take m (drop p g') = take m (drop p g))
    \<and> (\<forall>i \<in> set ixs. field endian g (entryOff big ifd0 i) 2 = 270 \<longrightarrow>
           field endian g (entryOff big ifd0 i + 2) 2 = 2
           \<and> field endian g (entryOff big ifd0 i + 4) (fieldSize big) = 9
           \<and> field endian g' (entryOff big ifd0 i + 4) (fieldSize big)
               = (xmlSize + 1) mod 256 ^ fieldSize big
           \<and> field endian g' (entryOff big ifd0 i + 4 + fieldSize big) (fieldSize big)
               = descOffset mod 256 ^ fieldSize big)
    \<and> (fnd' \<longleftrightarrow> fnd \<or> (\<exists>i \<in> set ixs. field endian g (entryOff big ifd0 i) 2 = 270))"
  using L small idx dist run
proof (induction ixs arbitrary: g fnd)
  case Nil
  then show ?case by simp
next
  case (Cons i rest)
  let ?off = "entryOff big ifd0 i"
  let ?fs = "fieldSize big"
  have es: "entrySize big = 4 + 2 * ?fs" by (rule entrySize_fieldSize)
  have fsp: "0 < ?fs" by (rule fieldSize_pos)
  from Cons.prems have i: "i < n" and rest: "set rest \<subseteq> {..<n}" "distinct rest" "i \<notin> set rest"
    by auto
  have inL: "entryOff big ifd0 k + entrySize big \<le> L" if "k < n" for k
    using entryOff_less [OF that, of big ifd0] dir by simp
  have ing: "entryOff big ifd0 k + entrySize big \<le> length g" if "k < n" for k
    using inL [OF that] Cons.prems(1) by simp
  have lt63: "?off + entrySize big < 2 ^ 63"
    using inL [OF i] Cons.prems(2) by simp
  note body = patchEntry_inside [OF ing [OF i] lt63, of endian descOffset xmlSize]
  from Cons.prems(5) obtain g1 hit where
    step: "patchEntry endian big ifd0 descOffset xmlSize i g = Inr (g1, hit)"
    and more: "patchEntries endian big ifd0 descOffset xmlSize rest (g1, fnd \<or> hit) = Inr (g', fnd')"
    by (auto simp: andThen_eq_Inr)
  show ?case
  proof (cases "field endian g ?off 2 = 270")
    case False
    with step body have "g1 = g" "hit = False" by simp_all
    with more have more': "patchEntries endian big ifd0 descOffset xmlSize rest (g, fnd) = Inr (g', fnd')"
      by simp
    note ih = Cons.IH [OF Cons.prems(1) Cons.prems(2) rest(1) rest(2) more']
    from ih False show ?thesis by auto
  next
    case True
    with step body have ty: "field endian g (?off + 2) 2 = 2"
      and cnt: "field endian g (?off + 4) ?fs = 9"
      and g1: "g1 = patch endian big descOffset xmlSize g ?off" and hit: "hit"
      by (auto split: if_splits)
    have lg1: "length g1 = length g"
      using ing [OF i] by (simp add: g1 length_patch)
    have ih: "length g' = length g1
      \<and> (\<forall>p m. p + m \<le> length g1 \<longrightarrow>
           (\<forall>k \<in> set rest. p + m \<le> entryOff big ifd0 k + 4 \<or> entryOff big ifd0 k + entrySize big \<le> p) \<longrightarrow>
           take m (drop p g') = take m (drop p g1))
      \<and> (\<forall>k \<in> set rest. field endian g1 (entryOff big ifd0 k) 2 = 270 \<longrightarrow>
           field endian g1 (entryOff big ifd0 k + 2) 2 = 2
           \<and> field endian g1 (entryOff big ifd0 k + 4) ?fs = 9
           \<and> field endian g' (entryOff big ifd0 k + 4) ?fs = (xmlSize + 1) mod 256 ^ ?fs
           \<and> field endian g' (entryOff big ifd0 k + 4 + ?fs) ?fs = descOffset mod 256 ^ ?fs)
      \<and> (fnd' \<longleftrightarrow> (fnd \<or> hit) \<or> (\<exists>k \<in> set rest. field endian g1 (entryOff big ifd0 k) 2 = 270))"
      using Cons.IH [of g1 "fnd \<or> hit"] Cons.prems(1) Cons.prems(2) rest(1) rest(2) more lg1
      by simp
    have other: "field endian g1 (entryOff big ifd0 k + a) m = field endian g (entryOff big ifd0 k + a) m"
      if "k \<in> set rest" "a + m \<le> entrySize big" for k a m
    proof -
      from that rest have kn: "k < n" and ki: "i \<noteq> k" by auto
      from entryOff_disjoint [OF ki, of big ifd0] that(2) ing [OF kn] ing [OF i] show ?thesis
        unfolding g1 by (intro field_patch_other) auto
    qed
    have own: "field endian g' (?off + a) ?fs = field endian g1 (?off + a) ?fs"
      if "a = 4 \<or> a = 4 + ?fs" for a
    proof -
      have "take ?fs (drop (?off + a) g') = take ?fs (drop (?off + a) g1)"
      proof (rule ih [THEN conjunct2, THEN conjunct1, rule_format])
        show "?off + a + ?fs \<le> length g1"
          using that ing [OF i] es lg1 by auto
        show "?off + a + ?fs \<le> entryOff big ifd0 k + 4 \<or> entryOff big ifd0 k + entrySize big \<le> ?off + a"
          if "k \<in> set rest" for k
        proof -
          from that rest have ki: "i \<noteq> k" by auto
          from entryOff_disjoint [OF ki, of big ifd0] \<open>a = 4 \<or> a = 4 + ?fs\<close> es show ?thesis
            by auto
        qed
      qed
      then show ?thesis by (simp add: field_def)
    qed
    have c1: "length g' = length g"
      using ih lg1 by simp
    have c2: "take m (drop p g') = take m (drop p g)"
      if "p + m \<le> length g"
        "\<forall>k \<in> set (i # rest). p + m \<le> entryOff big ifd0 k + 4 \<or> entryOff big ifd0 k + entrySize big \<le> p"
      for p m
    proof -
      have "take m (drop p g') = take m (drop p g1)"
        using ih that lg1 by simp
      also have "\<dots> = take m (drop p g)"
        unfolding g1 using that ing [OF i] by (intro slice_patch_other) auto
      finally show ?thesis .
    qed
    have c3i: "field endian g' (?off + 4) ?fs = (xmlSize + 1) mod 256 ^ ?fs"
      "field endian g' (?off + 4 + ?fs) ?fs = descOffset mod 256 ^ ?fs"
    proof -
      have "field endian g' (?off + 4) ?fs = field endian g1 (?off + 4) ?fs"
        by (rule own) simp
      then show "field endian g' (?off + 4) ?fs = (xmlSize + 1) mod 256 ^ ?fs"
        unfolding g1 by (simp only: field_patch_count [OF ing [OF i]])
      have "field endian g' (?off + (4 + ?fs)) ?fs = field endian g1 (?off + (4 + ?fs)) ?fs"
        by (rule own) simp
      then have "field endian g' (?off + 4 + ?fs) ?fs = field endian g1 (?off + 4 + ?fs) ?fs"
        by (simp only: add.assoc)
      then show "field endian g' (?off + 4 + ?fs) ?fs = descOffset mod 256 ^ ?fs"
        unfolding g1 by (simp only: field_patch_offset [OF ing [OF i]])
    qed
    have c3r: "field endian g (entryOff big ifd0 k + 2) 2 = 2
           \<and> field endian g (entryOff big ifd0 k + 4) ?fs = 9
           \<and> field endian g' (entryOff big ifd0 k + 4) ?fs = (xmlSize + 1) mod 256 ^ ?fs
           \<and> field endian g' (entryOff big ifd0 k + 4 + ?fs) ?fs = descOffset mod 256 ^ ?fs"
      if "k \<in> set rest" "field endian g (entryOff big ifd0 k) 2 = 270" for k
    proof -
      have "field endian g1 (entryOff big ifd0 k) 2 = 270"
        using other [OF that(1), of 0 2] that(2) es by simp
      with ih that(1) have
        "field endian g1 (entryOff big ifd0 k + 2) 2 = 2
           \<and> field endian g1 (entryOff big ifd0 k + 4) ?fs = 9
           \<and> field endian g' (entryOff big ifd0 k + 4) ?fs = (xmlSize + 1) mod 256 ^ ?fs
           \<and> field endian g' (entryOff big ifd0 k + 4 + ?fs) ?fs = descOffset mod 256 ^ ?fs"
        by blast
      then show ?thesis
        using other [OF that(1), of 2 2] other [OF that(1), of 4 ?fs] es by simp
    qed
    have c4: "fnd' \<longleftrightarrow> fnd \<or> (\<exists>k \<in> set (i # rest). field endian g (entryOff big ifd0 k) 2 = 270)"
      using ih hit True by simp
    from c1 c2 c3i c3r ty cnt c4 True show ?thesis
      by (intro conjI allI impI ballI) (auto simp del: set_ConsD)
  qed
qed

text \<open>
  The frame of the loop: a byte that lies outside the count and offset fields of the
  entries visited that carry the ImageDescription tag is as before. An entry with another
  tag is left as it is, all of it.
\<close>

lemma patchEntries_frame:
  assumes dir: "ifd0 + hdrSize big + n * entrySize big \<le> L"
    and L: "L \<le> length g" and small: "L < 2 ^ 63"
    and idx: "set ixs \<subseteq> {..<n}" and dist: "distinct ixs"
    and run: "patchEntries endian big ifd0 descOffset xmlSize ixs (g, fnd) = Inr (g', fnd')"
    and pm: "p + m \<le> length g"
    and out: "\<forall>i \<in> set ixs. field endian g (entryOff big ifd0 i) 2 = 270 \<longrightarrow>
               p + m \<le> entryOff big ifd0 i + 4 \<or> entryOff big ifd0 i + entrySize big \<le> p"
  shows "take m (drop p g') = take m (drop p g)"
  using L idx dist run pm out
proof (induction ixs arbitrary: g fnd)
  case Nil
  then show ?case by simp
next
  case (Cons i rest)
  let ?off = "entryOff big ifd0 i"
  have es: "entrySize big = 4 + 2 * fieldSize big" by (rule entrySize_fieldSize)
  from Cons.prems have i: "i < n" and rest: "set rest \<subseteq> {..<n}" "distinct rest" "i \<notin> set rest"
    by auto
  have inL: "entryOff big ifd0 k + entrySize big \<le> L" if "k < n" for k
    using entryOff_less [OF that, of big ifd0] dir by simp
  have ing: "entryOff big ifd0 k + entrySize big \<le> length g" if "k < n" for k
    using inL [OF that] Cons.prems(1) by simp
  have lt63: "?off + entrySize big < 2 ^ 63"
    using inL [OF i] small by simp
  note body = patchEntry_inside [OF ing [OF i] lt63, of endian descOffset xmlSize]
  from Cons.prems(4) obtain g1 hit where
    step: "patchEntry endian big ifd0 descOffset xmlSize i g = Inr (g1, hit)"
    and more: "patchEntries endian big ifd0 descOffset xmlSize rest (g1, fnd \<or> hit) = Inr (g', fnd')"
    by (auto simp: andThen_eq_Inr)
  have outr: "\<forall>k \<in> set rest. field endian g (entryOff big ifd0 k) 2 = 270 \<longrightarrow>
               p + m \<le> entryOff big ifd0 k + 4 \<or> entryOff big ifd0 k + entrySize big \<le> p"
    using Cons.prems(6) by simp
  show ?case
  proof (cases "field endian g ?off 2 = 270")
    case False
    with step body have "g1 = g" by simp
    with more have more': "patchEntries endian big ifd0 descOffset xmlSize rest (g, fnd \<or> hit) = Inr (g', fnd')"
      by simp
    show ?thesis
      by (rule Cons.IH [OF Cons.prems(1) rest(1) rest(2) more' Cons.prems(5) outr])
  next
    case True
    with step body have g1: "g1 = patch endian big descOffset xmlSize g ?off"
      by (auto split: if_splits)
    have lg1: "length g1 = length g"
      using ing [OF i] by (simp add: g1 length_patch)
    have other: "field endian g1 (entryOff big ifd0 k) 2 = field endian g (entryOff big ifd0 k) 2"
      if "k \<in> set rest" for k
    proof -
      from that rest have kn: "k < n" and ki: "i \<noteq> k" by auto
      from entryOff_disjoint [OF ki, of big ifd0] ing [OF kn] ing [OF i] es show ?thesis
        unfolding g1 by (intro field_patch_other) auto
    qed
    have outr1: "\<forall>k \<in> set rest. field endian g1 (entryOff big ifd0 k) 2 = 270 \<longrightarrow>
               p + m \<le> entryOff big ifd0 k + 4 \<or> entryOff big ifd0 k + entrySize big \<le> p"
      using outr other by simp
    have L1: "L \<le> length g1" and pm1: "p + m \<le> length g1"
      using Cons.prems(1) Cons.prems(5) lg1 by simp_all
    have "take m (drop p g') = take m (drop p g1)"
      by (rule Cons.IH [OF L1 rest(1) rest(2) more pm1 outr1])
    also have "\<dots> = take m (drop p g)"
      unfolding g1 using Cons.prems(5) Cons.prems(6) True ing [OF i]
      by (intro slice_patch_other) auto
    finally show ?thesis .
  qed
qed

lemma nth_of_slice:
  assumes "take 1 (drop p a) = take 1 (drop p b)" and "p < length a" and "p < length b"
  shows "a ! p = b ! p"
proof -
  have "take 1 (drop p a) ! 0 = a ! p" "take 1 (drop p b) ! 0 = b ! p"
    using assms(2,3) by simp_all
  with assms(1) show ?thesis by simp
qed

lemma field_append:
  assumes "p + m \<le> length f"
  shows "field endian (f @ rest) p m = field endian f p m"
  using assms by (simp add: field_def)

lemma readEntries_append:
  assumes "readEntries big f ifd0 endian = Inr n"
  shows "readEntries big (f @ rest) ifd0 endian = Inr n"
  using assms
  by (auto simp: readEntries_def read_raw_def read_here_def split: if_splits)

lemma readEntries_inside:
  assumes "readEntries big f ifd0 endian = Inr n"
  shows "ifd0 + hdrSize big \<le> length f"
  using assms
  by (auto simp: readEntries_def read_raw_def read_here_def hdrSize_def split: if_splits)

subsection \<open>What saveComment does to a file\<close>

text \<open>
  Let \<open>saveComment\<close> succeed on a file whose header gives byte order, format and first
  directory, the directory with its \<open>n\<close> entries lying inside the file as written, the
  length of the file fitting the offset field of the format (and being a stream offset),
  and the length of the XML text with its NUL fitting the count field. Then the file has
  grown by the XML text and one NUL byte, which start at the old end of file; the directory
  has an ImageDescription entry; every such entry had type ASCII and count
  \<open>strlen("OME-TIFF") + 1\<close> before, keeps tag and type, and now has count \<open>len(xml) + 1\<close>
  and as offset the old end of file: as 32-bit fields 4 and 8 bytes into the entry for
  classic TIFF, as 64-bit fields 4 and 12 bytes into the entry for BigTIFF; and every byte
  of the old file outside the count and offset fields of these entries is as before.
\<close>

lemma saveComment_inside:
  assumes ok: "saveComment f xml = Inr f'"
    and hd: "readHeader f = Inr (endian, big, ifd0)"
    and en: "readEntries big f ifd0 endian = Inr n"
    and inside: "ifd0 + hdrSize big + n * entrySize big \<le> length f"
    and fitf: "length f < (if big then 2 ^ 63 else 2 ^ 32)"
    and fitx: "length xml + 1 < (if big then 2 ^ 64 else 2 ^ 32)"
  shows "length f' = length f + length xml + 1
    \<and> drop (length f) f' = xmlBytes xml @ [0]
    \<and> (\<exists>i < n. field endian f (entryOff big ifd0 i) 2 = TIFFTAG_IMAGEDESCRIPTION)
    \<and> (\<forall>i < n. field endian f (entryOff big ifd0 i) 2 = TIFFTAG_IMAGEDESCRIPTION \<longrightarrow>
          field endian f (entryOff big ifd0 i + 2) 2 = TIFF_ASCII
        \<and> field endian f (entryOff big ifd0 i + 4) (fieldSize big) = length default_description + 1
        \<and> field endian f' (entryOff big ifd0 i) 2 = TIFFTAG_IMAGEDESCRIPTION
        \<and> field endian f' (entryOff big ifd0 i + 2) 2 = TIFF_ASCII
        \<and> (if big
            then field endian f' (entryOff big ifd0 i + 4) 8 = length xml + 1
               \<and> field endian f' (entryOff big ifd0 i + 12) 8 = length f
            else field endian f' (entryOff big ifd0 i + 4) 4 = length xml + 1
               \<and> field endian f' (entryOff big ifd0 i + 8) 4 = length f))
    \<and> (\<forall>p < length f.
          (\<forall>i < n. field endian f (entryOff big ifd0 i) 2 = TIFFTAG_IMAGEDESCRIPTION \<longrightarrow>
             p < entryOff big ifd0 i + 4 \<or> entryOff big ifd0 i + entrySize big \<le> p) \<longrightarrow>
          f' ! p = f ! p)"
proof -
  let ?f1 = "f @ xmlBytes xml @ [0]"
  let ?fs = "fieldSize big"
  have es: "entrySize big = 4 + 2 * ?fs" by (rule entrySize_fieldSize)
  have len1: "length ?f1 = length f + length xml + 1"
    by (simp add: xmlBytes_def)
  have small63: "length f < 2 ^ 63"
  proof -
    have "(2 :: nat) ^ 32 < 2 ^ 63" by simp
    with fitf show ?thesis by (auto split: if_splits)
  qed
  have fit: "(length xml + 1) mod 256 ^ ?fs = length xml + 1" "length f mod 256 ^ ?fs = length f"
  proof -
    have "(256 :: nat) ^ 4 = 2 ^ 32" "(2 :: nat) ^ 63 < 256 ^ 8" "(256 :: nat) ^ 8 = 2 ^ 64"
      by simp_all
    with fitf fitx have "length f < 256 ^ ?fs" "length xml + 1 < 256 ^ ?fs"
      by (cases big; simp add: fieldSize_def)+
    then show "(length xml + 1) mod 256 ^ ?fs = length xml + 1" "length f mod 256 ^ ?fs = length f"
      by simp_all
  qed
  from ok hd readEntries_append [OF en, of "xmlBytes xml @ [0]"]
  obtain found where
    run: "patchEntries endian big ifd0 (length f) (length xml) [0..<n] (?f1, False) = Inr (f', found)"
    and found: "found"
    by (auto simp: saveComment_def Let_def andThen_eq_Inr split: if_splits)
  have L: "length f \<le> length ?f1" by simp
  have idx: "set [0..<n] \<subseteq> {..<n}" "distinct [0..<n]" by auto
  note inv = patchEntries_inside [OF inside L small63 idx run]
  have inf: "entryOff big ifd0 k + entrySize big \<le> length f" if "k < n" for k
    using entryOff_less [OF that, of big ifd0] inside by simp
  have f1f: "field endian ?f1 (entryOff big ifd0 k + a) m = field endian f (entryOff big ifd0 k + a) m"
    if "k < n" "a + m \<le> entrySize big" for k a m
    using inf [OF that(1)] that(2) by (intro field_append) simp
  have c1: "length f' = length f + length xml + 1"
    using inv len1 by simp
  have c2: "drop (length f) f' = xmlBytes xml @ [0]"
  proof -
    have "take (length xml + 1) (drop (length f) f') = take (length xml + 1) (drop (length f) ?f1)"
    proof (rule inv [THEN conjunct2, THEN conjunct1, rule_format])
      show "length f + (length xml + 1) \<le> length ?f1" using len1 by simp
      show "length f + (length xml + 1) \<le> entryOff big ifd0 i + 4
            \<or> entryOff big ifd0 i + entrySize big \<le> length f" if "i \<in> set [0..<n]" for i
        using that inf [of i] by simp
    qed
    then show ?thesis using c1 by (simp add: xmlBytes_def)
  qed
  have c3: "\<exists>i < n. field endian f (entryOff big ifd0 i) 2 = TIFFTAG_IMAGEDESCRIPTION"
  proof -
    from inv found obtain i where "i < n" "field endian ?f1 (entryOff big ifd0 i) 2 = 270"
      by auto
    with f1f [of i 0 2] es show ?thesis
      by (auto simp: TIFFTAG_IMAGEDESCRIPTION_def)
  qed
  have keep: "field endian f' (entryOff big ifd0 i + a) 2 = field endian f (entryOff big ifd0 i + a) 2"
    if "i < n" "a + 2 \<le> 4" for i a
  proof -
    have "take 2 (drop (entryOff big ifd0 i + a) f') = take 2 (drop (entryOff big ifd0 i + a) ?f1)"
    proof (rule inv [THEN conjunct2, THEN conjunct1, rule_format])
      show "entryOff big ifd0 i + a + 2 \<le> length ?f1"
        using inf [OF that(1)] that(2) es by simp
      show "entryOff big ifd0 i + a + 2 \<le> entryOff big ifd0 k + 4
            \<or> entryOff big ifd0 k + entrySize big \<le> entryOff big ifd0 i + a"
        if "k \<in> set [0..<n]" for k
      proof (cases "k = i")
        case True
        with \<open>a + 2 \<le> 4\<close> show ?thesis by simp
      next
        case False
        then have "i \<noteq> k" by simp
        from entryOff_disjoint [OF this, of big ifd0] \<open>a + 2 \<le> 4\<close> es show ?thesis by auto
      qed
    qed
    then have "field endian f' (entryOff big ifd0 i + a) 2 = field endian ?f1 (entryOff big ifd0 i + a) 2"
      by (simp add: field_def)
    also have "\<dots> = field endian f (entryOff big ifd0 i + a) 2"
      using that es by (intro f1f) simp_all
    finally show ?thesis .
  qed
  have c4: "field endian f (entryOff big ifd0 i + 2) 2 = TIFF_ASCII
        \<and> field endian f (entryOff big ifd0 i + 4) ?fs = length default_description + 1
        \<and> field endian f' (entryOff big ifd0 i) 2 = TIFFTAG_IMAGEDESCRIPTION
        \<and> field endian f' (entryOff big ifd0 i + 2) 2 = TIFF_ASCII
        \<and> (if big
            then field endian f' (entryOff big ifd0 i + 4) 8 = length xml + 1
               \<and> field endian f' (entryOff big ifd0 i + 12) 8 = length f
            else field endian f' (entryOff big ifd0 i + 4) 4 = length xml + 1
               \<and> field endian f' (entryOff big ifd0 i + 8) 4 = length f)"
    if i: "i < n" and tag: "field endian f (entryOff big ifd0 i) 2 = TIFFTAG_IMAGEDESCRIPTION" for i
  proof -
    have "field endian ?f1 (entryOff big ifd0 i) 2 = 270"
      using f1f [OF i, of 0 2] tag es by (simp add: TIFFTAG_IMAGEDESCRIPTION_def)
    with inv i have
      t1: "field endian ?f1 (entryOff big ifd0 i + 2) 2 = 2"
      and t2: "field endian ?f1 (entryOff big ifd0 i + 4) ?fs = 9"
      and t3: "field endian f' (entryOff big ifd0 i + 4) ?fs = (length xml + 1) mod 256 ^ ?fs"
      and t4: "field endian f' (entryOff big ifd0 i + 4 + ?fs) ?fs = length f mod 256 ^ ?fs"
      by auto
    have a: "field endian f (entryOff big ifd0 i + 2) 2 = TIFF_ASCII"
      using t1 f1f [OF i, of 2 2] es by (simp add: TIFF_ASCII_def)
    have b: "field endian f (entryOff big ifd0 i + 4) ?fs = length default_description + 1"
      using t2 f1f [OF i, of 4 ?fs] es by (simp add: default_description_def)
    have c: "field endian f' (entryOff big ifd0 i) 2 = TIFFTAG_IMAGEDESCRIPTION"
      using keep [OF i, of 0] tag by simp
    have d: "field endian f' (entryOff big ifd0 i + 2) 2 = TIFF_ASCII"
      using keep [OF i, of 2] a by simp
    have e: "if big
            then field endian f' (entryOff big ifd0 i + 4) 8 = length xml + 1
               \<and> field endian f' (entryOff big ifd0 i + 12) 8 = length f
            else field endian f' (entryOff big ifd0 i + 4) 4 = length xml + 1
               \<and> field endian f' (entryOff big ifd0 i + 8) 4 = length f"
      using t3 t4 fit by (cases big) (simp_all add: fieldSize_def add.assoc)
    from a b c d e show ?thesis by blast
  qed
  have c5: "f' ! p = f ! p"
    if p: "p < length f"
      and out: "\<forall>i < n. field endian f (entryOff big ifd0 i) 2 = TIFFTAG_IMAGEDESCRIPTION \<longrightarrow>
             p < entryOff big ifd0 i + 4 \<or> entryOff big ifd0 i + entrySize big \<le> p" for p
  proof -
    have pm: "p + 1 \<le> length ?f1" using p by simp
    have out1: "\<forall>i \<in> set [0..<n]. field endian ?f1 (entryOff big ifd0 i) 2 = 270 \<longrightarrow>
               p + 1 \<le> entryOff big ifd0 i + 4 \<or> entryOff big ifd0 i + entrySize big \<le> p"
    proof (intro ballI impI)
      fix i assume i: "i \<in> set [0..<n]" and t: "field endian ?f1 (entryOff big ifd0 i) 2 = 270"
      from i have "i < n" by simp
      with t f1f [of i 0 2] es have "field endian f (entryOff big ifd0 i) 2 = TIFFTAG_IMAGEDESCRIPTION"
        by (simp add: TIFFTAG_IMAGEDESCRIPTION_def)
      with out \<open>i < n\<close> show "p + 1 \<le> entryOff big ifd0 i + 4 \<or> entryOff big ifd0 i + entrySize big \<le> p"
        by auto
    qed
    have "take 1 (drop p f') = take 1 (drop p ?f1)"
      by (rule patchEntries_frame [OF inside L small63 idx run pm out1])
    then have "f' ! p = ?f1 ! p"
      using p c1 by (intro nth_of_slice) simp_all
    also have "\<dots> = f ! p"
      using p by (simp add: nth_append)
    finally show ?thesis .
  qed
  from c1 c2 c3 c4 c5 show ?thesis by blast
qed


text \<open>
  The smallest files of either format that carry the placeholder: a little-endian classic
  TIFF with the directory at offset 8, and a big-endian BigTIFF with the directory at offset
  16, each with the single entry ImageDescription, type ASCII, count 9.
\<close>

definition tiny_tiff :: "u8 list" where
  "tiny_tiff = [73, 73, 42, 0, 8, 0, 0, 0,
                1, 0,
                14, 1, 2, 0, 9, 0, 0, 0, 26, 0, 0, 0,
                0, 0, 0, 0,
                79, 77, 69, 45, 84, 73, 70, 70, 0]"

definition tiny_tiff_patched :: "u8 list" where
  "tiny_tiff_patched = [73, 73, 42, 0, 8, 0, 0, 0,
                1, 0,
                14, 1, 2, 0, 7, 0, 0, 0, 35, 0, 0, 0,
                0, 0, 0, 0,
                79, 77, 69, 45, 84, 73, 70, 70, 0,
                60, 79, 77, 69, 47, 62, 0]"

definition tiny_bigtiff :: "u8 list" where
  "tiny_bigtiff = [77, 77, 0, 43, 0, 8, 0, 0, 0, 0, 0, 0, 0, 0, 0, 16,
                0, 0, 0, 0, 0, 0, 0, 1,
                1, 14, 0, 2, 0, 0, 0, 0, 0, 0, 0, 9, 0, 0, 0, 0, 0, 0, 0, 52,
                0, 0, 0, 0, 0, 0, 0, 0,
                79, 77, 69, 45, 84, 73, 70, 70, 0]"

definition tiny_bigtiff_patched :: "u8 list" where
  "tiny_bigtiff_patched = [77, 77, 0, 43, 0, 8, 0, 0, 0, 0, 0, 0, 0, 0, 0, 16,
                0, 0, 0, 0, 0, 0, 0, 1,
                1, 14, 0, 2, 0, 0, 0, 0, 0, 0, 0, 7, 0, 0, 0, 0, 0, 0, 0, 61,
                0, 0, 0, 0, 0, 0, 0, 0,
                79, 77, 69, 45, 84, 73, 70, 70, 0,
                60, 79, 77, 69, 47, 62, 0]"

lemma le_bytes_numeral:
  "le_bytes (numeral k) v = of_nat (v mod 256) # le_bytes (pred_numeral k) (v div 256)"
  unfolding numeral_eq_Suc [of k] by simp

lemmas stream_defs = read_raw_def read_here_def decode_def encode_def write_raw_def
  overwrite_def tagOff_def TIFFTAG_IMAGEDESCRIPTION_def TIFF_ASCII_def default_description_def
  le_bytes_numeral

lemma tiny_tiff_header:
  "readHeader tiny_tiff = Inr (ENDIAN_LITTLE, False, 8)"
  "readEntries False tiny_tiff 8 ENDIAN_LITTLE = Inr 1"
  "length tiny_tiff = 35"
  by (simp_all add: readHeader_def readEntries_def tiny_tiff_def extractChar_def isspace_def
      stream_defs)

lemma tiny_bigtiff_header:
  "readHeader tiny_bigtiff = Inr (ENDIAN_BIG, True, 16)"
  "readEntries True tiny_bigtiff 16 ENDIAN_BIG = Inr 1"
  "length tiny_bigtiff = 61"
  by (simp_all add: readHeader_def readEntries_def tiny_bigtiff_def extractChar_def isspace_def
      stream_defs)

lemma tiny_tiff_entry:
  "patchEntry ENDIAN_LITTLE False 8 35 6 0 (tiny_tiff @ xmlBytes ''<OME/>'' @ [0])
     = Inr (tiny_tiff_patched, True)"
  by (simp add: patchEntry_def tiny_tiff_def tiny_tiff_patched_def xmlBytes_def stream_defs)

lemma tiny_bigtiff_entry:
  "patchEntry ENDIAN_BIG True 16 61 6 0 (tiny_bigtiff @ xmlBytes ''<OME/>'' @ [0])
     = Inr (tiny_bigtiff_patched, True)"
  by (simp add: patchEntry_def tiny_bigtiff_def tiny_bigtiff_patched_def xmlBytes_def stream_defs)

lemma xml_length: "length ''<OME/>'' = 6"
  by simp

lemma upt_one: "[0..<1] = [0 :: nat]"
  by simp

lemma tiny_tiff_saved: "saveComment tiny_tiff ''<OME/>'' = Inr tiny_tiff_patched"
  unfolding saveComment_def
  by (simp only: tiny_tiff_header readEntries_append [OF tiny_tiff_header(2)] xml_length
      andThen_Inr prod.case Let_def upt_one patchEntries.simps tiny_tiff_entry) simp

lemma tiny_bigtiff_saved: "saveComment tiny_bigtiff ''<OME/>'' = Inr tiny_bigtiff_patched"
  unfolding saveComment_def
  by (simp only: tiny_bigtiff_header readEntries_append [OF tiny_bigtiff_header(2)] xml_length
      andThen_Inr prod.case Let_def upt_one patchEntries.simps tiny_bigtiff_entry) simp

section \<open>OMETIFFWriter: close\<close>

text \<open>
  \<open>nextIFD\<close> writes the current directory and counts it. The TIFF library is taken to
  write the directory without error, so only the count changes.
\<close>

definition nextIFD :: "'a OMETIFFWriter_scheme \<Rightarrow> error + 'a OMETIFFWriter_scheme" where
  "nextIFD w =
     andThen (currentState w) (\<lambda>_.
       Inr (w\<lparr>tiffs := map (\<lambda>(p, s). if Some p = currentTIFF w
                                    then (p, s\<lparr>ifdCount := ifdCount s + 1\<rparr>)
                                    else (p, s)) (tiffs w)\<rparr>))"

text \<open>The count of planes that are not \<open>PRESENT\<close>, over the planes of every series.\<close>

definition countBadPlanes :: "OMETIFFPlane list list \<Rightarrow> dimension_size_type" where
  "countBadPlanes ss =
     foldl (\<lambda>badPlanes planes.
              foldl (\<lambda>badPlanes pl. if status pl \<noteq> PRESENT then badPlanes + 1 else badPlanes)
                badPlanes planes)
       0 ss"

text \<open>
  The loops of \<open>fillMetadata\<close> over series and planes. For each plane they compute the
  coordinates, look up the state of the plane and the TIFF it was written to, and fail when
  that TIFF is not registered. The \<open>TiffData\<close> and \<open>UUID\<close> elements they then store in the
  metadata are left out.
\<close>

fun fillPlanes ::
  "'a OMETIFFWriter_scheme \<Rightarrow> DimensionOrder \<Rightarrow> dimension_size_type \<Rightarrow> dimension_size_type \<Rightarrow>
   dimension_size_type \<Rightarrow> dimension_size_type \<Rightarrow> dimension_size_type \<Rightarrow> nat list \<Rightarrow> error + unit" where
  "fillPlanes w dimOrder sizeZ effC sizeT imageCount s [] = Inr ()"
| "fillPlanes w dimOrder sizeZ effC sizeT imageCount s (p # rest) =
     andThen (getZCTCoords dimOrder (unat sizeZ) (unat effC) (unat sizeT) (unat imageCount) p) (\<lambda>coords.
     andThen (at (seriesState w) s) (\<lambda>planes.
     andThen (at planes (of_nat p)) (\<lambda>planeState.
       case map_of (tiffs w) (planeId planeState) of
         None \<Rightarrow> Inl (FileNotRegistered (planeId planeState))
       | Some t \<Rightarrow> fillPlanes w dimOrder sizeZ effC sizeT imageCount s rest)))"

fun fillSeries :: "'a OMETIFFWriter_scheme \<Rightarrow> MetadataRetrieve \<Rightarrow> nat list \<Rightarrow> error + unit" where
  "fillSeries w mr [] = Inr ()"
| "fillSeries w mr (s # rest) =
     andThen (getPixelsDimensionOrder mr (of_nat s)) (\<lambda>dimOrder.
     andThen (getPixelsSizeZ mr (of_nat s)) (\<lambda>z.
     andThen (getPixelsSizeT mr (of_nat s)) (\<lambda>t.
     andThen (getChannelCount mr (of_nat s)) (\<lambda>effC.
       let sizeZ = ucast z;
           sizeT = ucast t;
           imageCount = sizeZ * sizeT * effC
       in
     andThen (fillPlanes w dimOrder sizeZ effC sizeT imageCount (of_nat s) [0..<unat imageCount]) (\<lambda>_.
       fillSeries w mr rest)))))"

definition fillMetadata :: "'a OMETIFFWriter_scheme \<Rightarrow> error + unit" where
  "fillMetadata w =
     (if omeMeta w = None then Inl OMEXMLMetadataNull
      else
        let badPlanes = countBadPlanes (seriesState w) in
        if badPlanes \<noteq> 0 then Inl (IncompletePlanes badPlanes)
        else
          andThen (getSeriesCount w) (\<lambda>seriesCount.
          andThen (store w) (\<lambda>mr.
            fillSeries w mr [0..<unat seriesCount])))"

text \<open>
  \<open>getOMEXML\<close> for one file; the serialisation of the metadata with the UUID of the file
  belongs to the XML layer and is a parameter here.
\<close>

definition getOMEXML ::
  "(MetadataRetrieve option \<Rightarrow> string \<Rightarrow> string) \<Rightarrow> 'a OMETIFFWriter_scheme \<Rightarrow> path \<Rightarrow> error + string" where
  "getOMEXML serialise w p =
     (case map_of (tiffs w) p of
        None \<Rightarrow> Inl (FileNotRegistered p)
      | Some t \<Rightarrow> Inr (serialise (omeMeta w) (''urn:uuid:'' @ uuid t)))"

text \<open>
  The loop of \<open>close\<close> over the TIFFs: get the XML for the file, close the TIFF, and patch
  the file the library has left on disk. The result lists the files as they are afterwards.
\<close>

fun saveAll ::
  "(MetadataRetrieve option \<Rightarrow> string \<Rightarrow> string) \<Rightarrow> 'a OMETIFFWriter_scheme \<Rightarrow>
   (path \<times> TIFFState) list \<Rightarrow> error + (path \<times> u8 list) list" where
  "saveAll serialise w [] = Inr []"
| "saveAll serialise w ((p, t) # rest) =
     andThen (getOMEXML serialise w p) (\<lambda>xml.
     andThen (saveComment (fileBytes (tiff t)) xml) (\<lambda>bytes.
     andThen (saveAll serialise w rest) (\<lambda>disk.
       Inr ((p, bytes) # disk))))"

text \<open>\<open>FormatWriter::close\<close>: the fields of the base class that it resets.\<close>

definition FormatWriter_close :: "'a FormatWriter_scheme \<Rightarrow> 'a FormatWriter_scheme" where
  "FormatWriter_close w =
     w\<lparr>currentId := None, series := 0, resolution := 0, plane := 0,
       metadataRetrieve := None, resolutionLevels := []\<rparr>"

text \<open>
  \<open>OMETIFFWriter::close\<close>. The result is the error thrown, or the files written, and the
  writer afterwards. When the body throws, the handler sets \<open>currentTIFF\<close> to the end
  iterator, runs \<open>FormatWriter::close\<close> and throws again; the writer then keeps its TIFFs
  and its plane states.
\<close>

definition flushLast :: "'a OMETIFFWriter_scheme \<Rightarrow> error + 'a OMETIFFWriter_scheme" where
  "flushLast w =
     (if currentTIFF w \<noteq> None
      then andThen (nextIFD w) (\<lambda>w'. Inr (w'\<lparr>currentTIFF := None\<rparr>))
      else Inr w)"

definition closeAll :: "'a OMETIFFWriter_scheme \<Rightarrow> 'a OMETIFFWriter_scheme" where
  "closeAll w =
     FormatWriter_close (w\<lparr>tiffs := [], currentTIFF := None, seriesState := [], omeMeta := None\<rparr>)"

definition close ::
  "(MetadataRetrieve option \<Rightarrow> string \<Rightarrow> string) \<Rightarrow> 'a OMETIFFWriter_scheme \<Rightarrow>
   (error + (path \<times> u8 list) list) \<times> 'a OMETIFFWriter_scheme" where
  "close serialise w =
     (if currentId w = None then (Inr [], closeAll w)
      else
        case flushLast w of
          Inl e \<Rightarrow> (Inl e, FormatWriter_close (w\<lparr>currentTIFF := None\<rparr>))
        | Inr w1 \<Rightarrow>
            (case andThen (fillMetadata w1) (\<lambda>_. saveAll serialise w1 (tiffs w1)) of
               Inl e \<Rightarrow> (Inl e, FormatWriter_close (w1\<lparr>currentTIFF := None\<rparr>))
             | Inr disk \<Rightarrow> (Inr disk, closeAll w1)))"

subsection \<open>Counting the planes not written\<close>

lemma foldl_bad_planes:
  "foldl (\<lambda>badPlanes pl. if status pl \<noteq> PRESENT then badPlanes + 1 else badPlanes) acc planes
     = acc + of_nat (length (filter (\<lambda>pl. status pl \<noteq> PRESENT) planes))"
  for acc :: dimension_size_type
  by (induction planes arbitrary: acc) (simp_all add: add.assoc)

lemma foldl_bad_series:
  "foldl (\<lambda>badPlanes planes.
              foldl (\<lambda>badPlanes pl. if status pl \<noteq> PRESENT then badPlanes + 1 else badPlanes)
                badPlanes planes) acc ss
     = acc + of_nat (length (filter (\<lambda>pl. status pl \<noteq> PRESENT) (concat ss)))"
  for acc :: dimension_size_type
  by (induction ss arbitrary: acc) (simp_all add: foldl_bad_planes add.assoc)

lemma countBadPlanes_filter:
  "countBadPlanes ss = of_nat (length (filter (\<lambda>pl. status pl \<noteq> PRESENT) (concat ss)))"
  by (simp add: countBadPlanes_def foldl_bad_series)

subsection \<open>Errors of the steps after the plane check\<close>

text \<open>The error of unwritten planes is thrown by the plane check and by nothing else.\<close>

definition otherError :: "error + 'a \<Rightarrow> bool" where
  "otherError r = (\<forall>k. r \<noteq> Inl (IncompletePlanes k))"

lemma otherError_Inr [simp]: "otherError (Inr v)"
  by (simp add: otherError_def)

lemma otherError_andThen:
  assumes "otherError m" and "\<And>v. otherError (f v)"
  shows "otherError (andThen m f)"
  using assms by (cases m) (auto simp: otherError_def)

lemma otherError_at [simp]: "otherError (at xs i)"
  by (simp add: at_def otherError_def)

lemma otherError_getImage [simp]: "otherError (getImage mr i)"
  by (simp add: getImage_def otherError_def)

lemma otherError_store [simp]: "otherError (store w)"
  by (simp add: store_def otherError_def split: option.splits)

lemma otherError_getZCTCoords [simp]: "otherError (getZCTCoords ord zs cs ts num i)"
  by (simp add: getZCTCoords_def otherError_def Let_def split: prod.splits)

lemma otherError_read_here [simp]: "otherError (read_here n f pos endian)"
  by (simp add: read_here_def otherError_def)

lemma otherError_read_raw [simp]: "otherError (read_raw n f off endian)"
  by (simp add: read_raw_def otherError_def read_here_def)

lemma otherError_write_raw [simp]: "otherError (write_raw n f off endian v)"
  by (simp add: write_raw_def otherError_def)

lemma otherError_fillPlanes: "otherError (fillPlanes w dimOrder sizeZ effC sizeT num s ps)"
proof (induction ps)
  case Nil
  show ?case by simp
next
  case (Cons p rest)
  show ?case
    by (auto intro!: otherError_andThen simp: Cons split: option.splits)
      (simp add: otherError_def)
qed

lemma otherError_fillSeries: "otherError (fillSeries w mr ss)"
proof (induction ss)
  case Nil
  show ?case by simp
next
  case (Cons s rest)
  show ?case
    by (auto intro!: otherError_andThen
        simp: Cons Let_def getPixelsDimensionOrder_def getPixelsSizeZ_def getPixelsSizeT_def
          getChannelCount_def otherError_fillPlanes)
qed

lemma otherError_patchEntry: "otherError (patchEntry endian big ifd0 descOffset xmlSize i f)"
  unfolding patchEntry_def Let_def
  by (auto intro!: otherError_andThen) (simp_all add: otherError_def)

lemma otherError_patchEntries:
  "otherError (patchEntries endian big ifd0 descOffset xmlSize ixs st)"
proof (induction ixs arbitrary: st)
  case Nil
  show ?case by simp
next
  case (Cons i rest)
  obtain f found where st: "st = (f, found)" by (cases st)
  show ?case
    unfolding st by (auto intro!: otherError_andThen simp: otherError_patchEntry Cons)
qed

lemma otherError_readHeader: "otherError (readHeader f)"
  unfolding readHeader_def
  by (auto intro!: otherError_andThen split: option.splits) (simp_all add: otherError_def)

lemma otherError_saveComment: "otherError (saveComment f xml)"
  unfolding saveComment_def Let_def readEntries_def
  by (auto intro!: otherError_andThen simp: otherError_readHeader otherError_patchEntries)
    (simp_all add: otherError_def)

lemma otherError_saveAll: "otherError (saveAll serialise w ts)"
proof (induction ts)
  case Nil
  show ?case by simp
next
  case (Cons pt rest)
  obtain p t where pt: "pt = (p, t)" by (cases pt)
  have "otherError (getOMEXML serialise w p)"
    by (simp add: getOMEXML_def otherError_def split: option.splits)
  then show ?case
    unfolding pt by (auto intro!: otherError_andThen simp: otherError_saveComment Cons)
qed

lemma flushLast_planes:
  assumes "currentTIFF w = None \<or> (\<exists>p t. currentTIFF w = Some p \<and> map_of (tiffs w) p = Some t)"
  shows "\<exists>w1. flushLast w = Inr w1 \<and> seriesState w1 = seriesState w \<and> omeMeta w1 = omeMeta w"
  using assms by (auto simp: flushLast_def nextIFD_def currentState_def)

subsection \<open>C2: close refuses a writer with unwritten planes\<close>

text \<open>
  C2. Take a writer in the open state: \<open>currentId\<close> set, the metadata copy of \<open>setId\<close> in
  place, \<open>currentTIFF\<close> at the end or at one of the TIFFs, and fewer than \<open>2 ^ 64\<close> planes
  (they are held in memory). If a plane of any series is \<open>ABSENT\<close>, \<open>close\<close> fails with the
  error of incomplete planes, which carries the number of planes not \<open>PRESENT\<close>, a number
  that is not 0. If every plane is \<open>PRESENT\<close>, \<open>close\<close> does not fail with that error.
\<close>

theorem close_incomplete_planes:
  assumes "currentId w \<noteq> None" and "omeMeta w \<noteq> None"
    and "currentTIFF w = None \<or> (\<exists>p t. currentTIFF w = Some p \<and> map_of (tiffs w) p = Some t)"
    and "length (concat (seriesState w)) < 2 ^ 64"
  shows "((\<exists>pl \<in> set (concat (seriesState w)). status pl = ABSENT) \<longrightarrow>
            fst (close serialise w)
              = Inl (IncompletePlanes
                  (of_nat (length (filter (\<lambda>pl. status pl \<noteq> PRESENT) (concat (seriesState w))))))
            \<and> (of_nat (length (filter (\<lambda>pl. status pl \<noteq> PRESENT) (concat (seriesState w))))
                 :: dimension_size_type) \<noteq> 0)
       \<and> ((\<forall>pl \<in> set (concat (seriesState w)). status pl = PRESENT) \<longrightarrow>
            (\<forall>k. fst (close serialise w) \<noteq> Inl (IncompletePlanes k)))"
proof -
  let ?bad = "filter (\<lambda>pl. status pl \<noteq> PRESENT) (concat (seriesState w))"
  from flushLast_planes [OF assms(3)] obtain w1 where
    fl: "flushLast w = Inr w1" and ss: "seriesState w1 = seriesState w"
    and om: "omeMeta w1 = omeMeta w"
    by blast
  have lt: "length ?bad < 2 ^ 64"
    by (rule le_less_trans [OF length_filter_le assms(4)])
  have absent: "fst (close serialise w) = Inl (IncompletePlanes (of_nat (length ?bad)))
            \<and> (of_nat (length ?bad) :: dimension_size_type) \<noteq> 0"
    if "\<exists>pl \<in> set (concat (seriesState w)). status pl = ABSENT"
  proof -
    from that obtain pl where "pl \<in> set (concat (seriesState w))" "status pl = ABSENT"
      by blast
    then have "pl \<in> set (concat (seriesState w))" "status pl \<noteq> PRESENT"
      by simp_all
    then have "pl \<in> set ?bad" by simp
    then have "0 < length ?bad" by (rule length_pos_if_in_set)
    with lt have nz: "(of_nat (length ?bad) :: dimension_size_type) \<noteq> 0"
      by (intro of_nat_neq_0) simp_all
    then have "fillMetadata w1 = Inl (IncompletePlanes (of_nat (length ?bad)))"
      using assms(2) by (auto simp: fillMetadata_def om ss countBadPlanes_filter Let_def)
    with nz show ?thesis
      using assms(1) by (simp add: close_def fl)
  qed
  have present: "fst (close serialise w) \<noteq> Inl (IncompletePlanes k)"
    if "\<forall>pl \<in> set (concat (seriesState w)). status pl = PRESENT" for k
  proof -
    from that have "?bad = []" by (simp add: filter_empty_conv)
    then have "fillMetadata w1
        = andThen (getSeriesCount w1) (\<lambda>seriesCount.
          andThen (store w1) (\<lambda>mr. fillSeries w1 mr [0..<unat seriesCount]))"
      using assms(2) by (auto simp: fillMetadata_def om ss countBadPlanes_filter Let_def)
    moreover have "otherError (andThen (getSeriesCount w1) (\<lambda>seriesCount.
          andThen (store w1) (\<lambda>mr. fillSeries w1 mr [0..<unat seriesCount])))"
      unfolding getSeriesCount_def
      by (auto intro!: otherError_andThen simp: otherError_fillSeries)
    ultimately have "otherError (andThen (fillMetadata w1) (\<lambda>_. saveAll serialise w1 (tiffs w1)))"
      by (auto intro!: otherError_andThen simp: otherError_saveAll)
    then show ?thesis
      using assms(1) by (auto simp: close_def fl otherError_def split: sum.splits)
  qed
  from absent present show ?thesis by blast
qed

text \<open>
  Scenario S6 of the spec: one series of four planes (four time points), of which plane 3
  was never written; and the same writer with all four planes written. The file the
  library leaves behind is the smallest classic TIFF.
\<close>

definition s6_image :: Image where
  "s6_image = \<lparr>pixelsSizeX = 16, pixelsSizeY = 16, pixelsSizeZ = 1, pixelsSizeT = 4,
     pixelsSizeC = 1, pixelsDimensionOrder = XYZCT,
     channels = [\<lparr>channelSamplesPerPixel = Some 1\<rparr>]\<rparr>"

definition written_plane :: OMETIFFPlane where
  "written_plane = \<lparr>planeId = ''output.test'', planeIndex = 0, certain = True, status = PRESENT\<rparr>"

definition unwritten_plane :: OMETIFFPlane where
  "unwritten_plane = \<lparr>planeId = [], planeIndex = 0, certain = True, status = ABSENT\<rparr>"

definition s6_writer :: "OMETIFFPlane list \<Rightarrow> OMETIFFWriter" where
  "s6_writer planes =
     \<lparr>currentId = Some ''output.test'', series = 0, resolution = 0, plane = 3,
      tile_size_x = None, tile_size_y = None, metadataRetrieve = Some [s6_image],
      resolutionLevels = [[(16, 16, 1)]],
      tiffs = [(''output.test'',
                \<lparr>uuid = ''u'', tiff = \<lparr>currentDirectory = strip_IFD, fileBytes = tiny_tiff\<rparr>,
                  ifdCount = 3\<rparr>)],
      currentTIFF = Some ''output.test'', seriesState = [planes], omeMeta = Some [s6_image]\<rparr>"

theorem close_incomplete_planes_witness:
  "fst (close (\<lambda>_ _. ''<OME/>'')
          (s6_writer [written_plane, written_plane, written_plane, unwritten_plane]))
     = Inl (IncompletePlanes 1)
   \<and> (\<forall>k. fst (close (\<lambda>_ _. ''<OME/>'')
          (s6_writer [written_plane, written_plane, written_plane, written_plane]))
     \<noteq> Inl (IncompletePlanes k))"
proof -
  have st: "currentId (s6_writer ps) \<noteq> None" "omeMeta (s6_writer ps) \<noteq> None"
    "currentTIFF (s6_writer ps) = None
     \<or> (\<exists>p t. currentTIFF (s6_writer ps) = Some p \<and> map_of (tiffs (s6_writer ps)) p = Some t)"
    "seriesState (s6_writer ps) = [ps]" for ps
    by (simp_all add: s6_writer_def)
  have len: "length (concat (seriesState (s6_writer ps))) < 2 ^ 64" if "length ps = 4" for ps
    using that by (simp add: st)
  have a: "fst (close (\<lambda>_ _. ''<OME/>'')
          (s6_writer [written_plane, written_plane, written_plane, unwritten_plane]))
     = Inl (IncompletePlanes 1)"
    using close_incomplete_planes [OF st(1) st(2) st(3) len,
        of "[written_plane, written_plane, written_plane, unwritten_plane]" "\<lambda>_ _. ''<OME/>''"]
    by (simp add: st written_plane_def unwritten_plane_def)
  have b: "\<forall>k. fst (close (\<lambda>_ _. ''<OME/>'')
          (s6_writer [written_plane, written_plane, written_plane, written_plane]))
     \<noteq> Inl (IncompletePlanes k)"
    using close_incomplete_planes [OF st(1) st(2) st(3) len,
        of "[written_plane, written_plane, written_plane, written_plane]" "\<lambda>_ _. ''<OME/>''"]
    by (simp add: st written_plane_def)
  from a b show ?thesis by simp
qed

text \<open>With all four planes written, \<open>close\<close> succeeds and leaves the patched file.\<close>

lemma upt_four: "[0..<4] = [0, 1, 2, 3 :: nat]"
  by (simp add: upt_rec)

lemma close_written:
  "fst (close (\<lambda>_ _. ''<OME/>'')
          (s6_writer [written_plane, written_plane, written_plane, written_plane]))
     = Inr [(''output.test'', tiny_tiff_patched)]"
proof -
  let ?w = "s6_writer [written_plane, written_plane, written_plane, written_plane]"
  let ?w1 = "?w\<lparr>tiffs := [(''output.test'',
                \<lparr>uuid = ''u'', tiff = \<lparr>currentDirectory = strip_IFD, fileBytes = tiny_tiff\<rparr>,
                  ifdCount = 4\<rparr>)], currentTIFF := None\<rparr>"
  have fl: "flushLast ?w = Inr ?w1"
    by (simp add: flushLast_def nextIFD_def currentState_def s6_writer_def)
  have fm: "fillMetadata ?w1 = Inr ()"
    by (simp add: fillMetadata_def countBadPlanes_def getSeriesCount_def store_def
        getPixelsDimensionOrder_def getPixelsSizeZ_def getPixelsSizeT_def getChannelCount_def
        getImage_def upt_four s6_writer_def s6_image_def written_plane_def
        getZCTCoords_def valueOf_def at_def Let_def)
  have sa: "saveAll (\<lambda>_ _. ''<OME/>'') ?w1 (tiffs ?w1) = Inr [(''output.test'', tiny_tiff_patched)]"
    by (simp add: s6_writer_def getOMEXML_def tiny_tiff_saved)
  have op: "currentId ?w \<noteq> None"
    by (simp add: s6_writer_def)
  show ?thesis
    unfolding close_def
    by (simp only: op if_False fl fm sa andThen_Inr sum.case fst_conv)
qed

subsection \<open>The files that close leaves\<close>

text \<open>
  The loop over the TIFFs gives one file for each TIFF of the writer, in order and under
  the same path: the file \<open>saveComment\<close> makes of the bytes of that TIFF and the XML for
  that path.
\<close>

lemma saveAll_nth:
  assumes "saveAll serialise w ts = Inr disk"
  shows "map fst disk = map fst ts
    \<and> (\<forall>j < length ts. \<exists>xml bytes.
          getOMEXML serialise w (fst (ts ! j)) = Inr xml
        \<and> saveComment (fileBytes (tiff (snd (ts ! j)))) xml = Inr bytes
        \<and> disk ! j = (fst (ts ! j), bytes))"
  using assms
proof (induction ts arbitrary: disk)
  case Nil
  then show ?case by simp
next
  case (Cons pt rest)
  obtain p t where pt: "pt = (p, t)" by (cases pt)
  from Cons.prems obtain xml bytes more where
    x: "getOMEXML serialise w p = Inr xml"
    and b: "saveComment (fileBytes (tiff t)) xml = Inr bytes"
    and m: "saveAll serialise w rest = Inr more"
    and d: "disk = (p, bytes) # more"
    by (auto simp: pt andThen_eq_Inr)
  note ih = Cons.IH [OF m]
  have names: "map fst disk = map fst (pt # rest)"
    using ih by (simp add: d pt)
  have each: "\<exists>xml bytes.
          getOMEXML serialise w (fst ((pt # rest) ! j)) = Inr xml
        \<and> saveComment (fileBytes (tiff (snd ((pt # rest) ! j)))) xml = Inr bytes
        \<and> disk ! j = (fst ((pt # rest) ! j), bytes)" if "j < length (pt # rest)" for j
  proof (cases j)
    case 0
    with x b show ?thesis by (simp add: d pt)
  next
    case (Suc k)
    with that have "k < length rest" by simp
    with ih show ?thesis by (simp add: d Suc)
  qed
  from names each show ?case by blast
qed

text \<open>
  Flushing the last directory changes the count of directories of the current TIFF, and
  nothing else of the TIFFs: paths, UUIDs and files are as before.
\<close>

lemma map_of_nextIFD:
  "map_of (map (\<lambda>(p, s). if Some p = c then (p, s\<lparr>ifdCount := ifdCount s + 1\<rparr>) else (p, s)) ts) q
   = map_option (\<lambda>s. if Some q = c then s\<lparr>ifdCount := ifdCount s + 1\<rparr> else s) (map_of ts q)"
  by (induction ts) auto

lemma flushLast_tiffs:
  assumes "flushLast w = Inr w1"
  shows "length (tiffs w1) = length (tiffs w)"
    and "map fst (tiffs w1) = map fst (tiffs w)"
    and "j < length (tiffs w) \<Longrightarrow> tiff (snd (tiffs w1 ! j)) = tiff (snd (tiffs w ! j))"
    and "getOMEXML serialise w1 q = getOMEXML serialise w q"
proof -
  let ?bump = "\<lambda>(p, s). if Some p = currentTIFF w then (p, s\<lparr>ifdCount := ifdCount s + 1\<rparr>) else (p, s)"
  from assms have ts: "tiffs w1 = tiffs w \<or> tiffs w1 = map ?bump (tiffs w)"
    and om: "omeMeta w1 = omeMeta w"
    by (auto simp: flushLast_def nextIFD_def andThen_eq_Inr split: if_splits)
  have fst_bump: "fst (?bump pt) = fst pt" and tiff_bump: "tiff (snd (?bump pt)) = tiff (snd pt)" for pt
    by (cases pt; simp)+
  from ts show "length (tiffs w1) = length (tiffs w)"
    by auto
  from ts show "map fst (tiffs w1) = map fst (tiffs w)"
    by (auto simp: fst_bump)
  from ts show "tiff (snd (tiffs w1 ! j)) = tiff (snd (tiffs w ! j))" if "j < length (tiffs w)"
    using that by (auto simp: tiff_bump)
  from ts show "getOMEXML serialise w1 q = getOMEXML serialise w q"
  proof
    assume "tiffs w1 = tiffs w"
    then show ?thesis
      by (cases "map_of (tiffs w) q") (simp_all add: getOMEXML_def om)
  next
    assume "tiffs w1 = map ?bump (tiffs w)"
    then show ?thesis
      by (cases "map_of (tiffs w) q") (simp_all add: getOMEXML_def om map_of_nextIFD)
  qed
qed

lemma close_files:
  assumes "currentId w \<noteq> None" and "fst (close serialise w) = Inr disk"
  shows "\<exists>w1. flushLast w = Inr w1 \<and> saveAll serialise w1 (tiffs w1) = Inr disk"
proof (cases "flushLast w")
  case (Inl e)
  with assms(2) show ?thesis by (simp add: close_def assms(1))
next
  case (Inr w1)
  show ?thesis
  proof (cases "andThen (fillMetadata w1) (\<lambda>_. saveAll serialise w1 (tiffs w1))")
    case (Inl e)
    with assms(2) Inr show ?thesis by (simp add: close_def assms(1))
  next
    case inner: (Inr d)
    with assms(2) Inr have "d = disk" by (simp add: close_def assms(1))
    with inner Inr show ?thesis by (auto simp: andThen_eq_Inr)
  qed
qed

subsection \<open>C1: close patches the ImageDescription entry of every output file\<close>

text \<open>
  C1. Let \<open>close\<close> succeed on an open writer, and take any of its TIFFs: the one at
  position \<open>j\<close>, with path \<open>fname\<close>, whose file as the TIFF library wrote it is \<open>f\<close>, and for
  which \<open>getOMEXML\<close> gives \<open>xml\<close>. Let the header of \<open>f\<close> give byte order, format and first
  directory, the directory with its \<open>n\<close> entries lie inside \<open>f\<close>, the length of \<open>f\<close> fit the
  offset field of the format (and be a stream offset), and the length of the XML text with
  its NUL fit the count field. Then \<open>close\<close> leaves one file for each TIFF, under the same
  paths; and the file \<open>f'\<close> it leaves under \<open>fname\<close> is \<open>f\<close> grown by the XML text and one NUL
  byte, which start at the old end of file; the first directory has an ImageDescription
  entry; every such entry had type ASCII and count \<open>strlen("OME-TIFF") + 1\<close> before, keeps
  tag and type, and now has count \<open>len(xml) + 1\<close> and as offset the old end of file, as
  32-bit fields 4 and 8 bytes into the entry for classic TIFF and as 64-bit fields 4 and
  12 bytes into the entry for BigTIFF; and every byte of \<open>f\<close> outside the count and offset
  fields of these entries is as before.
\<close>

theorem close_patches_ImageDescription:
  assumes op: "currentId w \<noteq> None"
    and ok: "fst (close serialise w) = Inr disk"
    and j: "j < length (tiffs w)" and ent: "tiffs w ! j = (fname, t)"
    and f: "fileBytes (tiff t) = f"
    and xml: "getOMEXML serialise w fname = Inr xml"
    and hd: "readHeader f = Inr (endian, big, ifd0)"
    and en: "readEntries big f ifd0 endian = Inr n"
    and inside: "ifd0 + hdrSize big + n * entrySize big \<le> length f"
    and fitf: "length f < (if big then 2 ^ 63 else 2 ^ 32)"
    and fitx: "length xml + 1 < (if big then 2 ^ 64 else 2 ^ 32)"
  shows "map fst disk = map fst (tiffs w)
    \<and> (\<exists>f'. disk ! j = (fname, f')
        \<and> length f' = length f + length xml + 1
        \<and> drop (length f) f' = xmlBytes xml @ [0]
        \<and> (\<exists>i < n. field endian f (entryOff big ifd0 i) 2 = TIFFTAG_IMAGEDESCRIPTION)
        \<and> (\<forall>i < n. field endian f (entryOff big ifd0 i) 2 = TIFFTAG_IMAGEDESCRIPTION \<longrightarrow>
              field endian f (entryOff big ifd0 i + 2) 2 = TIFF_ASCII
            \<and> field endian f (entryOff big ifd0 i + 4) (fieldSize big) = length default_description + 1
            \<and> field endian f' (entryOff big ifd0 i) 2 = TIFFTAG_IMAGEDESCRIPTION
            \<and> field endian f' (entryOff big ifd0 i + 2) 2 = TIFF_ASCII
            \<and> (if big
                then field endian f' (entryOff big ifd0 i + 4) 8 = length xml + 1
                   \<and> field endian f' (entryOff big ifd0 i + 12) 8 = length f
                else field endian f' (entryOff big ifd0 i + 4) 4 = length xml + 1
                   \<and> field endian f' (entryOff big ifd0 i + 8) 4 = length f))
        \<and> (\<forall>p < length f.
              (\<forall>i < n. field endian f (entryOff big ifd0 i) 2 = TIFFTAG_IMAGEDESCRIPTION \<longrightarrow>
                 p < entryOff big ifd0 i + 4 \<or> entryOff big ifd0 i + entrySize big \<le> p) \<longrightarrow>
              f' ! p = f ! p))"
proof -
  from close_files [OF op ok] obtain w1 where
    fl: "flushLast w = Inr w1" and sa: "saveAll serialise w1 (tiffs w1) = Inr disk"
    by blast
  note same = flushLast_tiffs [OF fl]
  have j1: "j < length (tiffs w1)"
    using j same(1) by simp
  have name1: "fst (tiffs w1 ! j) = fname"
  proof -
    have "fst (tiffs w1 ! j) = map fst (tiffs w1) ! j"
      using j1 by simp
    also have "\<dots> = map fst (tiffs w) ! j"
      by (simp only: same(2))
    also have "\<dots> = fname"
      using j ent by simp
    finally show ?thesis .
  qed
  have bytes1: "fileBytes (tiff (snd (tiffs w1 ! j))) = f"
    using same(3) [OF j] ent f by simp
  from saveAll_nth [OF sa] j1 obtain xml1 f' where
    x1: "getOMEXML serialise w1 (fst (tiffs w1 ! j)) = Inr xml1"
    and s1: "saveComment (fileBytes (tiff (snd (tiffs w1 ! j)))) xml1 = Inr f'"
    and d1: "disk ! j = (fst (tiffs w1 ! j), f')"
    by blast
  have "xml1 = xml"
    using x1 xml by (simp add: name1 same(4))
  with s1 have saved: "saveComment f xml = Inr f'"
    by (simp add: bytes1)
  have names: "map fst disk = map fst (tiffs w)"
    using saveAll_nth [OF sa] same(2) by simp
  have entry: "disk ! j = (fname, f')"
    using d1 name1 by simp
  note patched = saveComment_inside [OF saved hd en inside fitf fitx]
  from names entry patched show ?thesis
    by blast
qed

text \<open>
  A writer with two files, a classic TIFF and a BigTIFF, each the smallest file that
  carries the placeholder; two of the four planes went to each.
\<close>

definition plane_in :: "path \<Rightarrow> OMETIFFPlane" where
  "plane_in p = \<lparr>planeId = p, planeIndex = 0, certain = True, status = PRESENT\<rparr>"

definition two_file_writer :: OMETIFFWriter where
  "two_file_writer =
     \<lparr>currentId = Some ''b.ome.btf'', series = 0, resolution = 0, plane = 3,
      tile_size_x = None, tile_size_y = None, metadataRetrieve = Some [s6_image],
      resolutionLevels = [[(16, 16, 1)]],
      tiffs = [(''a.ome.tif'',
                \<lparr>uuid = ''a'', tiff = \<lparr>currentDirectory = strip_IFD, fileBytes = tiny_tiff\<rparr>,
                  ifdCount = 2\<rparr>),
               (''b.ome.btf'',
                \<lparr>uuid = ''b'', tiff = \<lparr>currentDirectory = strip_IFD, fileBytes = tiny_bigtiff\<rparr>,
                  ifdCount = 1\<rparr>)],
      currentTIFF = Some ''b.ome.btf'',
      seriesState = [[plane_in ''a.ome.tif'', plane_in ''a.ome.tif'',
                      plane_in ''b.ome.btf'', plane_in ''b.ome.btf'']],
      omeMeta = Some [s6_image]\<rparr>"

lemma close_two_files:
  "fst (close (\<lambda>_ _. ''<OME/>'') two_file_writer)
     = Inr [(''a.ome.tif'', tiny_tiff_patched), (''b.ome.btf'', tiny_bigtiff_patched)]"
proof -
  let ?w1 = "two_file_writer\<lparr>tiffs :=
       [(''a.ome.tif'',
         \<lparr>uuid = ''a'', tiff = \<lparr>currentDirectory = strip_IFD, fileBytes = tiny_tiff\<rparr>,
           ifdCount = 2\<rparr>),
        (''b.ome.btf'',
         \<lparr>uuid = ''b'', tiff = \<lparr>currentDirectory = strip_IFD, fileBytes = tiny_bigtiff\<rparr>,
           ifdCount = 2\<rparr>)], currentTIFF := None\<rparr>"
  have fl: "flushLast two_file_writer = Inr ?w1"
    by (simp add: flushLast_def nextIFD_def currentState_def two_file_writer_def)
  have fm: "fillMetadata ?w1 = Inr ()"
    by (simp add: fillMetadata_def countBadPlanes_def getSeriesCount_def store_def
        getPixelsDimensionOrder_def getPixelsSizeZ_def getPixelsSizeT_def getChannelCount_def
        getImage_def upt_four two_file_writer_def s6_image_def plane_in_def
        getZCTCoords_def valueOf_def at_def Let_def)
  have sa: "saveAll (\<lambda>_ _. ''<OME/>'') ?w1 (tiffs ?w1)
      = Inr [(''a.ome.tif'', tiny_tiff_patched), (''b.ome.btf'', tiny_bigtiff_patched)]"
    by (simp add: two_file_writer_def getOMEXML_def tiny_tiff_saved tiny_bigtiff_saved)
  have op: "currentId two_file_writer \<noteq> None"
    by (simp add: two_file_writer_def)
  show ?thesis
    unfolding close_def
    by (simp only: op if_False fl fm sa andThen_Inr sum.case fst_conv)
qed

theorem close_patches_ImageDescription_witness:
  "fst (close (\<lambda>_ _. ''<OME/>'') two_file_writer)
     = Inr [(''a.ome.tif'', tiny_tiff_patched), (''b.ome.btf'', tiny_bigtiff_patched)]
   \<and> readHeader tiny_tiff = Inr (ENDIAN_LITTLE, False, 8)
   \<and> readEntries False tiny_tiff 8 ENDIAN_LITTLE = Inr 1
   \<and> 8 + hdrSize False + 1 * entrySize False \<le> length tiny_tiff
   \<and> length tiny_tiff_patched = 35 + 6 + 1
   \<and> drop 35 tiny_tiff_patched = xmlBytes ''<OME/>'' @ [0]
   \<and> field ENDIAN_LITTLE tiny_tiff_patched (entryOff False 8 0 + 4) 4 = 6 + 1
   \<and> field ENDIAN_LITTLE tiny_tiff_patched (entryOff False 8 0 + 8) 4 = 35
   \<and> tiny_tiff_patched ! 4 = tiny_tiff ! 4
   \<and> tiny_tiff_patched ! 26 = tiny_tiff ! 26
   \<and> readHeader tiny_bigtiff = Inr (ENDIAN_BIG, True, 16)
   \<and> readEntries True tiny_bigtiff 16 ENDIAN_BIG = Inr 1
   \<and> 16 + hdrSize True + 1 * entrySize True \<le> length tiny_bigtiff
   \<and> length tiny_bigtiff_patched = 61 + 6 + 1
   \<and> drop 61 tiny_bigtiff_patched = xmlBytes ''<OME/>'' @ [0]
   \<and> field ENDIAN_BIG tiny_bigtiff_patched (entryOff True 16 0 + 4) 8 = 6 + 1
   \<and> field ENDIAN_BIG tiny_bigtiff_patched (entryOff True 16 0 + 12) 8 = 35 + 26
   \<and> tiny_bigtiff_patched ! 15 = tiny_bigtiff ! 15
   \<and> tiny_bigtiff_patched ! 52 = tiny_bigtiff ! 52"
proof -
  let ?ser = "\<lambda>(_ :: MetadataRetrieve option) (_ :: string). ''<OME/>''"
  have op: "currentId two_file_writer \<noteq> None"
    and len: "0 < length (tiffs two_file_writer)" "1 < length (tiffs two_file_writer)"
    and file0: "tiffs two_file_writer ! 0 = (''a.ome.tif'',
        \<lparr>uuid = ''a'', tiff = \<lparr>currentDirectory = strip_IFD, fileBytes = tiny_tiff\<rparr>, ifdCount = 2\<rparr>)"
    and file1: "tiffs two_file_writer ! 1 = (''b.ome.btf'',
        \<lparr>uuid = ''b'', tiff = \<lparr>currentDirectory = strip_IFD, fileBytes = tiny_bigtiff\<rparr>, ifdCount = 1\<rparr>)"
    and xml: "getOMEXML ?ser two_file_writer ''a.ome.tif'' = Inr ''<OME/>''"
      "getOMEXML ?ser two_file_writer ''b.ome.btf'' = Inr ''<OME/>''"
    by (simp_all add: two_file_writer_def getOMEXML_def)
  have bytes0: "fileBytes (tiff \<lparr>uuid = ''a'', tiff = \<lparr>currentDirectory = strip_IFD, fileBytes = tiny_tiff\<rparr>,
        ifdCount = 2\<rparr>) = tiny_tiff"
    and bytes1: "fileBytes (tiff \<lparr>uuid = ''b'', tiff = \<lparr>currentDirectory = strip_IFD, fileBytes = tiny_bigtiff\<rparr>,
        ifdCount = 1\<rparr>) = tiny_bigtiff"
    by simp_all
  have in1: "8 + hdrSize False + 1 * entrySize False \<le> length tiny_tiff"
    by (simp add: hdrSize_def entrySize_def tiny_tiff_header)
  have ff1: "length tiny_tiff < (if False then 2 ^ 63 else 2 ^ 32)"
    and fx: "length ''<OME/>'' + 1 < (if False then 2 ^ 64 else 2 ^ 32)"
    by (simp_all add: tiny_tiff_header)
  have tag1: "field ENDIAN_LITTLE tiny_tiff (entryOff False 8 0) 2 = TIFFTAG_IMAGEDESCRIPTION"
    by (simp add: field_def entryOff_def hdrSize_def tiny_tiff_def decode_def
        TIFFTAG_IMAGEDESCRIPTION_def)
  note c1 = close_patches_ImageDescription
    [OF op close_two_files len(1) file0 bytes0 xml(1) tiny_tiff_header(1) tiny_tiff_header(2) in1 ff1 fx]
  have e1: "entryOff False 8 0 = 10" "entrySize False = 12"
    by (simp_all add: entryOff_def hdrSize_def entrySize_def)
  have r1: "length tiny_tiff_patched = 35 + 6 + 1"
    "drop 35 tiny_tiff_patched = xmlBytes ''<OME/>'' @ [0]"
    "field ENDIAN_LITTLE tiny_tiff_patched (entryOff False 8 0 + 4) 4 = 6 + 1"
    "field ENDIAN_LITTLE tiny_tiff_patched (entryOff False 8 0 + 8) 4 = 35"
    using c1 tag1 by (simp_all add: tiny_tiff_header(3))
  have q1: "tiny_tiff_patched ! 4 = tiny_tiff ! 4" "tiny_tiff_patched ! 26 = tiny_tiff ! 26"
    using c1 by (simp_all add: tiny_tiff_header(3) e1)
  have in2: "16 + hdrSize True + 1 * entrySize True \<le> length tiny_bigtiff"
    by (simp add: hdrSize_def entrySize_def tiny_bigtiff_header)
  have ff2: "length tiny_bigtiff < (if True then 2 ^ 63 else 2 ^ 32)"
    and fx2: "length ''<OME/>'' + 1 < (if True then 2 ^ 64 else 2 ^ 32)"
    by (simp_all add: tiny_bigtiff_header)
  have tag2: "field ENDIAN_BIG tiny_bigtiff (entryOff True 16 0) 2 = TIFFTAG_IMAGEDESCRIPTION"
    by (simp add: field_def entryOff_def hdrSize_def tiny_bigtiff_def decode_def
        TIFFTAG_IMAGEDESCRIPTION_def)
  note c2 = close_patches_ImageDescription
    [OF op close_two_files len(2) file1 bytes1 xml(2) tiny_bigtiff_header(1) tiny_bigtiff_header(2) in2 ff2 fx2]
  have e2: "entryOff True 16 0 = 24" "entrySize True = 20"
    by (simp_all add: entryOff_def hdrSize_def entrySize_def)
  have r2: "length tiny_bigtiff_patched = 61 + 6 + 1"
    "drop 61 tiny_bigtiff_patched = xmlBytes ''<OME/>'' @ [0]"
    "field ENDIAN_BIG tiny_bigtiff_patched (entryOff True 16 0 + 4) 8 = 6 + 1"
    "field ENDIAN_BIG tiny_bigtiff_patched (entryOff True 16 0 + 12) 8 = 35 + 26"
    using c2 tag2 by (simp_all add: tiny_bigtiff_header(3))
  have q2: "tiny_bigtiff_patched ! 15 = tiny_bigtiff ! 15" "tiny_bigtiff_patched ! 52 = tiny_bigtiff ! 52"
    using c2 by (simp_all add: tiny_bigtiff_header(3) e2)
  from close_two_files tiny_tiff_header(1,2) in1 r1 q1 tiny_bigtiff_header(1,2) in2 r2 q2
  show ?thesis by simp
qed

section \<open>TIFF fields holding three arrays of 16-bit values\<close>

text \<open>The two tags of this shape.\<close>

datatype UInt16TagArray3 = COLORMAP | TRANSFERFUNCTION

text \<open>
  Modelled from the spec: the raw field access of the TIFF handle (\<open>IFD::getRawField\<close>,
  \<open>getRawFieldDefaulted\<close>, \<open>setRawField\<close>) is not among the sources. Following the table
  of section 4.3, a directory holds, for a tag of this shape, arrays of
  \<open>2 ^ BitsPerSample\<close> values: three for \<open>COLORMAP\<close>, one or three for
  \<open>TRANSFERFUNCTION\<close>. Reading hands out as many arrays as pointers were passed and fails
  when the field is unset; writing copies \<open>2 ^ BitsPerSample\<close> values from each pointer.
  Asking for more arrays than the directory holds leaves pointers unset, and copying from a
  buffer shorter than \<open>2 ^ BitsPerSample\<close> reads past its end: both are undefined behaviour.
\<close>

record RawFields =
  BITSPERSAMPLE :: u16
  SAMPLESPERPIXEL :: u16
  EXTRASAMPLES :: u16
  arrays3 :: "UInt16TagArray3 \<Rightarrow> u16 list list option"

definition getRawField3 :: "RawFields \<Rightarrow> UInt16TagArray3 \<Rightarrow> nat \<Rightarrow> error + u16 list list" where
  "getRawField3 d tag n =
     (case arrays3 d tag of
        None \<Rightarrow> Inl FieldNotSet
      | Some stored \<Rightarrow> if length stored < n then Inl UndefinedBehaviour else Inr (take n stored))"

definition setRawField3 :: "RawFields \<Rightarrow> UInt16TagArray3 \<Rightarrow> u16 list list \<Rightarrow> error + RawFields" where
  "setRawField3 d tag ptrs =
     (let n = 2 ^ unat (BITSPERSAMPLE d) in
      if \<exists>p \<in> set ptrs. length p < n then Inl UndefinedBehaviour
      else Inr (d\<lparr>arrays3 := (arrays3 d)(tag := Some (map (take n) ptrs))\<rparr>))"

text \<open>\<open>1U << bps\<close> on 32 bits; shifting by 32 or more is undefined.\<close>

definition shiftCount :: "u16 \<Rightarrow> error + nat" where
  "shiftCount bps = (if unat bps < 32 then Inr (2 ^ unat bps) else Inl UndefinedBehaviour)"

text \<open>\<open>std::vector(ptr, ptr + count)\<close>: the first \<open>count\<close> values of the array at \<open>ptr\<close>.\<close>

definition vectorFromRange :: "u16 list \<Rightarrow> nat \<Rightarrow> error + u16 list" where
  "vectorFromRange mem count =
     (if count \<le> length mem then Inr (take count mem) else Inl UndefinedBehaviour)"

text \<open>The number of samples that are not extra samples, in \<open>int\<close> as the operands promote.\<close>

definition colourSamples :: "RawFields \<Rightarrow> int" where
  "colourSamples d = int (unat (SAMPLESPERPIXEL d)) - int (unat (EXTRASAMPLES d))"

definition generic_array_get3 ::
  "RawFields \<Rightarrow> UInt16TagArray3 \<Rightarrow> error + (u16 list \<times> u16 list \<times> u16 list)" where
  "generic_array_get3 d tag =
     andThen
       (case tag of
          COLORMAP \<Rightarrow>
            (let bps = BITSPERSAMPLE d in
             andThen (getRawField3 d tag 3) (\<lambda>ptrs.
             andThen (shiftCount bps) (\<lambda>count. Inr (False, ptrs, count))))
        | TRANSFERFUNCTION \<Rightarrow>
            (let bps = BITSPERSAMPLE d;
                 limit = (colourSamples d = 1) in
             andThen (if \<not> limit then getRawField3 d tag 3 else getRawField3 d tag 1) (\<lambda>ptrs.
             andThen (shiftCount bps) (\<lambda>count. Inr (limit, ptrs, count)))))
       (\<lambda>(limit, ptrs, count).
          andThen (vectorFromRange (ptrs ! 0) count) (\<lambda>value0.
            if \<not> limit
            then andThen (vectorFromRange (ptrs ! 1) count) (\<lambda>value1.
                 andThen (vectorFromRange (ptrs ! 2) count) (\<lambda>value2.
                   Inr (value0, value1, value2)))
            else Inr (value0, [], [])))"

definition generic_array_set3 ::
  "RawFields \<Rightarrow> UInt16TagArray3 \<Rightarrow> u16 list \<times> u16 list \<times> u16 list \<Rightarrow> error + RawFields" where
  "generic_array_set3 d tag value =
     (case value of (value0, value1, value2) \<Rightarrow>
        if length value0 \<noteq> length value1 \<or> length value0 \<noteq> length value2
        then Inl FieldArraySizesNotEqual
        else case tag of
          COLORMAP \<Rightarrow> setRawField3 d tag [value0, value1, value2]
        | TRANSFERFUNCTION \<Rightarrow>
            if colourSamples d > 1
            then setRawField3 d tag [value0, value1, value2]
            else setRawField3 d tag [value0])"

subsection \<open>Reading\<close>

lemma vectorFromRange_Inr:
  "vectorFromRange mem count = Inr v \<Longrightarrow> length v = count \<and> v = take count mem"
  by (auto simp: vectorFromRange_def split: if_splits)

lemma shiftCount_Inr: "shiftCount bps = Inr count \<Longrightarrow> count = 2 ^ unat bps \<and> unat bps < 32"
  by (auto simp: shiftCount_def split: if_splits)

lemma get3_COLORMAP_lengths:
  assumes "generic_array_get3 d COLORMAP = Inr (a, b, c)"
  shows "length a = 2 ^ unat (BITSPERSAMPLE d) \<and> length b = 2 ^ unat (BITSPERSAMPLE d)
         \<and> length c = 2 ^ unat (BITSPERSAMPLE d)"
  using assms
  by (auto simp: generic_array_get3_def andThen_eq_Inr Let_def
      dest!: vectorFromRange_Inr shiftCount_Inr)

lemma get3_TRANSFERFUNCTION_lengths:
  assumes "generic_array_get3 d TRANSFERFUNCTION = Inr (a, b, c)"
  shows "length a = 2 ^ unat (BITSPERSAMPLE d)
         \<and> (if colourSamples d = 1 then b = [] \<and> c = []
             else length b = 2 ^ unat (BITSPERSAMPLE d) \<and> length c = 2 ^ unat (BITSPERSAMPLE d))"
  using assms
  by (auto simp: generic_array_get3_def andThen_eq_Inr Let_def split: if_splits
      dest!: vectorFromRange_Inr shiftCount_Inr)

subsection \<open>Writing, then reading\<close>

lemma colourSamples_update [simp]: "colourSamples (d\<lparr>arrays3 := f\<rparr>) = colourSamples d"
  by (simp add: colourSamples_def)

lemma set3_then_get3:
  assumes full: "tag = COLORMAP \<or> colourSamples d > 1"
    and len: "length a = 2 ^ unat (BITSPERSAMPLE d)" "length b = 2 ^ unat (BITSPERSAMPLE d)"
      "length c = 2 ^ unat (BITSPERSAMPLE d)"
    and bps: "unat (BITSPERSAMPLE d) < 32"
  shows "generic_array_set3 d tag (a, b, c)
           = Inr (d\<lparr>arrays3 := (arrays3 d)(tag := Some [a, b, c])\<rparr>)
         \<and> generic_array_get3 (d\<lparr>arrays3 := (arrays3 d)(tag := Some [a, b, c])\<rparr>) tag
           = Inr (a, b, c)"
proof -
  have w: "generic_array_set3 d tag (a, b, c)
           = Inr (d\<lparr>arrays3 := (arrays3 d)(tag := Some [a, b, c])\<rparr>)"
    using full len
    by (cases tag) (auto simp: generic_array_set3_def setRawField3_def Let_def)
  have r: "generic_array_get3 (d\<lparr>arrays3 := (arrays3 d)(tag := Some [a, b, c])\<rparr>) tag
           = Inr (a, b, c)"
    using full len bps
    by (cases tag)
      (auto simp: generic_array_get3_def getRawField3_def shiftCount_def vectorFromRange_def
        Let_def)
  from w r show ?thesis by simp
qed

subsection \<open>Reading, then writing\<close>

lemma get3_full_stored:
  assumes full: "tag = COLORMAP \<or> colourSamples d > 1"
    and rd: "generic_array_get3 d tag = Inr (a, b, c)"
  shows "unat (BITSPERSAMPLE d) < 32 \<and> length a = 2 ^ unat (BITSPERSAMPLE d)
         \<and> length b = 2 ^ unat (BITSPERSAMPLE d) \<and> length c = 2 ^ unat (BITSPERSAMPLE d)"
proof (cases tag)
  case COLORMAP
  with rd show ?thesis
    by (auto simp: generic_array_get3_def andThen_eq_Inr Let_def
        dest!: vectorFromRange_Inr shiftCount_Inr)
next
  case TRANSFERFUNCTION
  with full have "colourSamples d \<noteq> 1" by simp
  with rd TRANSFERFUNCTION show ?thesis
    by (auto simp: generic_array_get3_def andThen_eq_Inr Let_def
        dest!: vectorFromRange_Inr shiftCount_Inr)
qed

lemma get3_then_set3:
  assumes full: "tag = COLORMAP \<or> colourSamples d > 1"
    and rd: "generic_array_get3 d tag = Inr (a, b, c)"
  shows "\<exists>d'. generic_array_set3 d tag (a, b, c) = Inr d'
              \<and> generic_array_get3 d' tag = Inr (a, b, c)"
  using get3_full_stored [OF full rd] set3_then_get3 [OF full, of a b c]
  by blast

subsection \<open>C9: reading and writing three arrays\<close>

text \<open>
  A bilevel image of one sample per pixel with a transfer function: the directory holds
  the single array of \<open>2 ^ 1\<close> values.
\<close>

definition bilevel_fields :: RawFields where
  "bilevel_fields = \<lparr>BITSPERSAMPLE = 1, SAMPLESPERPIXEL = 1, EXTRASAMPLES = 0,
     arrays3 = (\<lambda>_. None)(TRANSFERFUNCTION := Some [[0, 65535]])\<rparr>"

text \<open>
  C9, as stated, fails: writing is not the inverse of reading for a collapsed
  \<open>TRANSFERFUNCTION\<close>. Reading the field of the bilevel image gives the one array and two
  empty ones; writing that value back is refused, because the three arrays differ in size.
\<close>

theorem collapsed_TRANSFERFUNCTION_not_writable:
  "colourSamples bilevel_fields = 1
   \<and> generic_array_get3 bilevel_fields TRANSFERFUNCTION = Inr ([0, 65535], [], [])
   \<and> generic_array_set3 bilevel_fields TRANSFERFUNCTION ([0, 65535], [], [])
       = Inl FieldArraySizesNotEqual"
  by (simp add: bilevel_fields_def colourSamples_def generic_array_get3_def getRawField3_def
      shiftCount_def vectorFromRange_def generic_array_set3_def)

text \<open>
  C9, amended. Reading \<open>COLORMAP\<close> returns three arrays of \<open>2 ^ BitsPerSample\<close> values.
  Reading \<open>TRANSFERFUNCTION\<close> returns arrays of \<open>2 ^ BitsPerSample\<close> values, and the
  second and third are empty exactly when SamplesPerPixel minus ExtraSamples is 1. Writing
  takes three arrays of equal length. For \<open>COLORMAP\<close>, and for \<open>TRANSFERFUNCTION\<close> when
  SamplesPerPixel minus ExtraSamples exceeds 1, writing and reading are inverse: what was
  read can be written and is read again, and three arrays of \<open>2 ^ BitsPerSample\<close> values
  (BitsPerSample below 32) can be written and are read back.
\<close>

theorem three_array_field_read_write:
  "(generic_array_get3 d COLORMAP = Inr (a, b, c) \<longrightarrow>
      length a = 2 ^ unat (BITSPERSAMPLE d) \<and> length b = 2 ^ unat (BITSPERSAMPLE d)
      \<and> length c = 2 ^ unat (BITSPERSAMPLE d))
   \<and> (generic_array_get3 d TRANSFERFUNCTION = Inr (a, b, c) \<longrightarrow>
      length a = 2 ^ unat (BITSPERSAMPLE d)
      \<and> (if colourSamples d = 1 then b = [] \<and> c = []
          else length b = 2 ^ unat (BITSPERSAMPLE d) \<and> length c = 2 ^ unat (BITSPERSAMPLE d)))
   \<and> (generic_array_set3 d tag (a, b, c) = Inr e \<longrightarrow> length a = length b \<and> length a = length c)
   \<and> ((tag = COLORMAP \<or> colourSamples d > 1) \<and> generic_array_get3 d tag = Inr (a, b, c) \<longrightarrow>
        (\<exists>d'. generic_array_set3 d tag (a, b, c) = Inr d'
              \<and> generic_array_get3 d' tag = Inr (a, b, c)))
   \<and> ((tag = COLORMAP \<or> colourSamples d > 1) \<and> unat (BITSPERSAMPLE d) < 32
        \<and> length a = 2 ^ unat (BITSPERSAMPLE d) \<and> length b = 2 ^ unat (BITSPERSAMPLE d)
        \<and> length c = 2 ^ unat (BITSPERSAMPLE d) \<longrightarrow>
        (\<exists>d'. generic_array_set3 d tag (a, b, c) = Inr d'
              \<and> generic_array_get3 d' tag = Inr (a, b, c)))"
proof -
  have w: "length a = length b \<and> length a = length c"
    if "generic_array_set3 d tag (a, b, c) = Inr e"
    using that by (auto simp: generic_array_set3_def split: if_splits)
  have rw: "\<exists>d'. generic_array_set3 d tag (a, b, c) = Inr d'
              \<and> generic_array_get3 d' tag = Inr (a, b, c)"
    if "tag = COLORMAP \<or> colourSamples d > 1" "unat (BITSPERSAMPLE d) < 32"
      "length a = 2 ^ unat (BITSPERSAMPLE d)" "length b = 2 ^ unat (BITSPERSAMPLE d)"
      "length c = 2 ^ unat (BITSPERSAMPLE d)"
    using set3_then_get3 [OF that(1) that(3) that(4) that(5) that(2)] by blast
  from get3_COLORMAP_lengths [of d a b c] get3_TRANSFERFUNCTION_lengths [of d a b c] w
    get3_then_set3 [of tag d a b c] rw
  show ?thesis by blast
qed

text \<open>A palette image of one bit per sample, and an RGB image with a transfer function.\<close>

definition palette_fields :: RawFields where
  "palette_fields = \<lparr>BITSPERSAMPLE = 1, SAMPLESPERPIXEL = 1, EXTRASAMPLES = 0,
     arrays3 = (\<lambda>_. None)(COLORMAP := Some [[0, 65535], [0, 32768], [0, 0]])\<rparr>"

definition rgb_fields :: RawFields where
  "rgb_fields = \<lparr>BITSPERSAMPLE = 1, SAMPLESPERPIXEL = 3, EXTRASAMPLES = 0,
     arrays3 = (\<lambda>_. None)(TRANSFERFUNCTION := Some [[0, 65535], [0, 65534], [0, 65533]])\<rparr>"

theorem three_array_field_read_write_witness:
  "generic_array_get3 palette_fields COLORMAP = Inr ([0, 65535], [0, 32768], [0, 0])
   \<and> generic_array_get3 rgb_fields TRANSFERFUNCTION = Inr ([0, 65535], [0, 65534], [0, 65533])
   \<and> colourSamples rgb_fields > 1
   \<and> generic_array_get3 bilevel_fields TRANSFERFUNCTION = Inr ([0, 65535], [], [])
   \<and> (\<exists>d'. generic_array_set3 palette_fields COLORMAP ([0, 65535], [0, 32768], [0, 0]) = Inr d'
          \<and> generic_array_get3 d' COLORMAP = Inr ([0, 65535], [0, 32768], [0, 0]))
   \<and> (\<exists>d'. generic_array_set3 rgb_fields TRANSFERFUNCTION ([0, 65535], [0, 65534], [0, 65533]) = Inr d'
          \<and> generic_array_get3 d' TRANSFERFUNCTION = Inr ([0, 65535], [0, 65534], [0, 65533]))
   \<and> (\<exists>d'. generic_array_set3 rgb_fields TRANSFERFUNCTION ([1, 2], [3, 4], [5, 6]) = Inr d'
          \<and> generic_array_get3 d' TRANSFERFUNCTION = Inr ([1, 2], [3, 4], [5, 6]))"
proof -
  have ev: "generic_array_get3 palette_fields COLORMAP = Inr ([0, 65535], [0, 32768], [0, 0])"
    "generic_array_get3 rgb_fields TRANSFERFUNCTION = Inr ([0, 65535], [0, 65534], [0, 65533])"
    "generic_array_get3 bilevel_fields TRANSFERFUNCTION = Inr ([0, 65535], [], [])"
    by (simp_all add: palette_fields_def rgb_fields_def bilevel_fields_def colourSamples_def
        generic_array_get3_def getRawField3_def shiftCount_def vectorFromRange_def)
  have cs: "colourSamples rgb_fields > 1" "unat (BITSPERSAMPLE rgb_fields) < 32"
    "2 ^ unat (BITSPERSAMPLE rgb_fields) = (2 :: nat)"
    by (simp_all add: rgb_fields_def colourSamples_def)
  have a: "\<exists>d'. generic_array_set3 palette_fields COLORMAP ([0, 65535], [0, 32768], [0, 0]) = Inr d'
          \<and> generic_array_get3 d' COLORMAP = Inr ([0, 65535], [0, 32768], [0, 0])"
    using three_array_field_read_write
      [of palette_fields "[0, 65535]" "[0, 32768]" "[0, 0]" COLORMAP] ev(1)
    by blast
  have b: "\<exists>d'. generic_array_set3 rgb_fields TRANSFERFUNCTION ([0, 65535], [0, 65534], [0, 65533]) = Inr d'
          \<and> generic_array_get3 d' TRANSFERFUNCTION = Inr ([0, 65535], [0, 65534], [0, 65533])"
    using three_array_field_read_write
      [of rgb_fields "[0, 65535]" "[0, 65534]" "[0, 65533]" TRANSFERFUNCTION] ev(2) cs(1)
    by blast
  have c: "\<exists>d'. generic_array_set3 rgb_fields TRANSFERFUNCTION ([1, 2], [3, 4], [5, 6]) = Inr d'
          \<and> generic_array_get3 d' TRANSFERFUNCTION = Inr ([1, 2], [3, 4], [5, 6])"
    using three_array_field_read_write
      [of rgb_fields "[1, 2]" "[3, 4]" "[5, 6]" TRANSFERFUNCTION] cs
    by simp
  from ev cs(1) a b c show ?thesis by simp
qed

section \<open>OMETIFFReader: TiffData elements\<close>

text \<open>
  A \<open>TiffData\<close> element of the metadata store. Every attribute may be unset; the getter of
  an unset attribute throws. The values are non-negative integers.
\<close>

record TiffData =
  tdIFD :: "nat option"
  tdPlaneCount :: "nat option"
  tdFirstZ :: "nat option"
  tdFirstC :: "nat option"
  tdFirstT :: "nat option"

text \<open>\<open>try { v = getter(); } catch (...) { }\<close>: the attribute, or the value \<open>v\<close> had before.\<close>

definition tryGet :: "'a option \<Rightarrow> 'a \<Rightarrow> 'a" where
  "tryGet attr v = (case attr of Some x \<Rightarrow> x | None \<Rightarrow> v)"

text \<open>
  The three optional starting indexes that \<open>seriesIndexStart\<close> updates, in the order
  \<open>(zIndexStart, tIndexStart, cIndexStart)\<close>.
\<close>

type_synonym IndexStart = "nat option \<times> nat option \<times> nat option"

definition indexStep :: "nat option \<Rightarrow> nat \<Rightarrow> nat option" where
  "indexStep start v = (case start of None \<Rightarrow> Some v | Some s \<Rightarrow> Some (min s v))"

text \<open>
  The loop of \<open>seriesIndexStart\<close> over the \<open>TiffData\<close> elements of one series. The value
  called \<open>firstZ\<close> is read with \<open>getTiffDataFirstC\<close>, as the source has it.
\<close>

fun seriesIndexStart :: "TiffData list \<Rightarrow> IndexStart \<Rightarrow> IndexStart" where
  "seriesIndexStart [] (zIndexStart, tIndexStart, cIndexStart) =
     (zIndexStart, tIndexStart, cIndexStart)"
| "seriesIndexStart (td # tds) (zIndexStart, tIndexStart, cIndexStart) =
     (let firstC = tryGet (tdFirstC td) 0;
          cIndexStart = indexStep cIndexStart firstC;
          firstZ = tryGet (tdFirstC td) 0;
          zIndexStart = indexStep zIndexStart firstZ;
          firstT = tryGet (tdFirstT td) 0;
          tIndexStart = indexStep tIndexStart firstT
      in seriesIndexStart tds (zIndexStart, tIndexStart, cIndexStart))"

text \<open>
  The step of \<open>findTiffData\<close> between reading the values of a \<open>TiffData\<close> element and
  computing its plane index: subtract the index starts, then check the ranges. \<open>None\<close> is
  the \<open>break\<close> on an invalid element; otherwise the result is \<open>(firstZ, firstC, firstT)\<close>.
\<close>

definition subtractIndexStart :: "nat option \<Rightarrow> nat \<Rightarrow> nat" where
  "subtractIndexStart start v = (if start \<noteq> None \<and> v \<ge> the start then v - the start else v)"

definition findTiffData_indexes ::
  "IndexStart \<Rightarrow> nat \<Rightarrow> nat \<Rightarrow> nat \<Rightarrow> nat \<Rightarrow> nat \<Rightarrow> nat \<Rightarrow> (nat \<times> nat \<times> nat) option" where
  "findTiffData_indexes starts sizeZ effSizeC sizeT firstZ firstC firstT =
     (case starts of (zIndexStart, tIndexStart, cIndexStart) \<Rightarrow>
        let firstC = subtractIndexStart cIndexStart firstC;
            firstZ = subtractIndexStart zIndexStart firstZ;
            firstT = subtractIndexStart tIndexStart firstT
        in if firstZ \<ge> sizeZ \<or> firstC \<ge> effSizeC \<or> firstT \<ge> sizeT then None
           else Some (firstZ, firstC, firstT))"

subsection \<open>What the pre-scan computes\<close>

lemma indexStep_Some: "indexStep (Some s) v = Some (min s v)"
  by (simp add: indexStep_def)

lemma seriesIndexStart_Some:
  "seriesIndexStart tds (Some z, Some t, Some c) =
     (Some (fold min (map (\<lambda>td. tryGet (tdFirstC td) 0) tds) z),
      Some (fold min (map (\<lambda>td. tryGet (tdFirstT td) 0) tds) t),
      Some (fold min (map (\<lambda>td. tryGet (tdFirstC td) 0) tds) c))"
  by (induction tds arbitrary: z t c) (simp_all add: indexStep_Some min.commute)

lemma fold_min_Min: "fold min xs (x :: nat) = Min (set (x # xs))"
  using Min.set_eq_fold [of x xs] by simp

text \<open>
  From unset starts, on a series with at least one \<open>TiffData\<close>: the C start is the minimum
  of the FirstC values and the T start the minimum of the FirstT values; the Z start is the
  minimum of the FirstC values too.
\<close>

lemma seriesIndexStart_result:
  assumes "tds \<noteq> []"
  shows "seriesIndexStart tds (None, None, None) =
     (Some (Min ((\<lambda>td. tryGet (tdFirstC td) 0) ` set tds)),
      Some (Min ((\<lambda>td. tryGet (tdFirstT td) 0) ` set tds)),
      Some (Min ((\<lambda>td. tryGet (tdFirstC td) 0) ` set tds)))"
proof -
  from assms obtain td rest where tds: "tds = td # rest"
    by (cases tds) auto
  show ?thesis
    by (simp add: tds indexStep_def seriesIndexStart_Some fold_min_Min)
qed

subsection \<open>C5: the Z index start is taken from FirstC\<close>

text \<open>
  A series of two Z sections, one channel and one time point whose two \<open>TiffData\<close>
  elements number the sections from 1: \<open>FirstZ = 1\<close> and \<open>FirstZ = 2\<close>, with
  \<open>FirstC = 0\<close> and \<open>FirstT = 0\<close>.
\<close>

definition one_based_z :: "TiffData list" where
  "one_based_z =
     [\<lparr>tdIFD = Some 0, tdPlaneCount = Some 1, tdFirstZ = Some 1, tdFirstC = Some 0, tdFirstT = Some 0\<rparr>,
      \<lparr>tdIFD = Some 1, tdPlaneCount = Some 1, tdFirstZ = Some 2, tdFirstC = Some 0, tdFirstT = Some 0\<rparr>]"

text \<open>
  C5. On this series the minimum of the FirstZ values is 1, yet the pre-scan returns the Z
  start 0, the minimum of the FirstC values. Nothing is then subtracted from FirstZ: the
  first element keeps Z index 1 (instead of 0), and the second keeps Z index 2, which is
  out of range for two sections and ends the mapping of the series.
\<close>

theorem seriesIndexStart_z_from_FirstC:
  "Min ((\<lambda>td. tryGet (tdFirstZ td) 0) ` set one_based_z) = 1
   \<and> seriesIndexStart one_based_z (None, None, None) = (Some 0, Some 0, Some 0)
   \<and> findTiffData_indexes (seriesIndexStart one_based_z (None, None, None)) 2 1 1 1 0 0
       = Some (1, 0, 0)
   \<and> findTiffData_indexes (seriesIndexStart one_based_z (None, None, None)) 2 1 1 2 0 0
       = None"
  by (simp add: one_based_z_def tryGet_def indexStep_def findTiffData_indexes_def
      subtractIndexStart_def)

section \<open>OMETIFFReader: core metadata\<close>

text \<open>
  The dimensions of the core metadata of one series at one resolution; \<open>sizeC\<close> lists the
  samples of each channel. The flags and the pixel type, which the functions below do not
  touch, are left out. \<open>core\<close> holds, per series and per resolution, a pointer to the core
  metadata, null once the series has been found invalid.
\<close>

record CoreMetadata =
  sizeX :: dimension_size_type
  sizeY :: dimension_size_type
  sizeZ :: dimension_size_type
  sizeT :: dimension_size_type
  sizeC :: "dimension_size_type list"
  imageCount :: dimension_size_type
  dimensionOrder :: DimensionOrder

type_synonym Core = "CoreMetadata option list list"

text \<open>\<open>core.at(series).at(0) = v\<close>\<close>

definition setCore0 :: "Core \<Rightarrow> dimension_size_type \<Rightarrow> CoreMetadata option \<Rightarrow> error + Core" where
  "setCore0 core ser v =
     andThen (at core ser) (\<lambda>levels.
     andThen (at levels 0) (\<lambda>_.
       Inr (core[unat ser := levels[0 := v]])))"

subsection \<open>getTiffDataValues\<close>

text \<open>
  The values \<open>getTiffDataValues\<close> hands back through its reference parameters, with its
  return value \<open>valid\<close>.
\<close>

record TiffDataValues =
  valid :: bool
  ifd :: "nat option"
  numPlanes :: nat
  firstZ :: nat
  firstT :: nat
  firstC :: nat

text \<open>
  The arguments after the element are the values the reference parameters hold on entry;
  \<open>findTiffData\<close> passes an unset \<open>tdIFD\<close> and zero for the others.
\<close>

definition getTiffDataValues ::
  "Core \<Rightarrow> dimension_size_type \<Rightarrow> TiffData \<Rightarrow> nat option \<Rightarrow> nat \<Rightarrow> nat \<Rightarrow> nat \<Rightarrow> nat \<Rightarrow>
   error + (TiffDataValues \<times> Core)" where
  "getTiffDataValues core ser td tdIFD0 numPlanes0 firstZ0 firstT0 firstC0 =
     (let tdIFD1 = (case tdIFD td of Some v \<Rightarrow> Some v | None \<Rightarrow> tdIFD0);
          numPlanes1 = (case tdPlaneCount td of Some v \<Rightarrow> v
                        | None \<Rightarrow> if tdIFD1 \<noteq> None then 1 else numPlanes0)
      in andThen (if numPlanes1 = 0
                  then andThen (setCore0 core ser None) (\<lambda>core'. Inr (False, core'))
                  else Inr (True, core)) (\<lambda>(valid1, core1).
           let tdIFD2 = (if tdIFD1 = None then Some 0 else tdIFD1);
               firstC1 = tryGet (tdFirstC td) firstC0;
               firstT1 = tryGet (tdFirstT td) firstT0;
               firstZ1 = tryGet (tdFirstZ td) firstZ0
           in Inr (\<lparr>valid = valid1, ifd = tdIFD2, numPlanes = numPlanes1, firstZ = firstZ1,
                     firstT = firstT1, firstC = firstC1\<rparr>, core1)))"

subsection \<open>C7: a missing plane count, not a zero one, is read as one plane\<close>

definition small_core :: CoreMetadata where
  "small_core = \<lparr>sizeX = 16, sizeY = 16, sizeZ = 1, sizeT = 2, sizeC = [1], imageCount = 2,
     dimensionOrder = XYZCT\<rparr>"

text \<open>
  C7, as stated, fails: a \<open>TiffData\<close> with \<open>IFD = 3\<close> and \<open>PlaneCount = 0\<close> has a plane
  count of zero and a present IFD, and yet it is not read as one plane. The count stays 0,
  the call returns false and the core metadata of the series is removed.
\<close>

theorem getTiffDataValues_zero_count_with_ifd:
  "getTiffDataValues [[Some small_core]] 0
     \<lparr>tdIFD = Some 3, tdPlaneCount = Some 0, tdFirstZ = None, tdFirstC = None, tdFirstT = None\<rparr>
     None 0 0 0 0
   = Inr (\<lparr>valid = False, ifd = Some 3, numPlanes = 0, firstZ = 0, firstT = 0, firstC = 0\<rparr>,
          [[None]])"
  by (simp add: getTiffDataValues_def setCore0_def at_def tryGet_def)

text \<open>
  C7, amended. For a \<open>TiffData\<close> of an existing series, read as \<open>findTiffData\<close> reads it:
  a missing plane count with a present IFD is one plane, and the series stays valid with
  its core metadata untouched; a plane count that is given as 0 (with or without an IFD),
  or missing without an IFD, leaves the count at 0, makes the call return false and removes
  the core metadata of the series; a plane count given as \<open>n > 0\<close> is \<open>n\<close> planes.
\<close>

theorem getTiffDataValues_plane_count:
  assumes "unat ser < length core" and "core ! unat ser \<noteq> []"
  shows "(tdPlaneCount td = None \<and> tdIFD td \<noteq> None \<longrightarrow>
            (\<exists>r. getTiffDataValues core ser td None 0 0 0 0 = Inr (r, core)
                 \<and> valid r \<and> numPlanes r = 1 \<and> ifd r = tdIFD td))
       \<and> (tdPlaneCount td = Some 0 \<or> (tdPlaneCount td = None \<and> tdIFD td = None) \<longrightarrow>
            (\<exists>r core'. getTiffDataValues core ser td None 0 0 0 0 = Inr (r, core')
                 \<and> \<not> valid r \<and> numPlanes r = 0
                 \<and> core' = core[unat ser := (core ! unat ser)[0 := None]]
                 \<and> core' ! unat ser ! 0 = None))
       \<and> (\<forall>n. tdPlaneCount td = Some n \<and> n > 0 \<longrightarrow>
            (\<exists>r. getTiffDataValues core ser td None 0 0 0 0 = Inr (r, core)
                 \<and> valid r \<and> numPlanes r = n))"
proof -
  have set0: "setCore0 core ser None = Inr (core[unat ser := (core ! unat ser)[0 := None]])"
    using assms by (simp add: setCore0_def at_def)
  have nth0: "core[unat ser := (core ! unat ser)[0 := None]] ! unat ser ! 0 = None"
    using assms by simp
  have one: "\<exists>r. getTiffDataValues core ser td None 0 0 0 0 = Inr (r, core)
                 \<and> valid r \<and> numPlanes r = 1 \<and> ifd r = tdIFD td"
    if "tdPlaneCount td = None" "tdIFD td \<noteq> None"
    using that by (auto simp: getTiffDataValues_def Let_def)
  have zero: "\<exists>r core'. getTiffDataValues core ser td None 0 0 0 0 = Inr (r, core')
                 \<and> \<not> valid r \<and> numPlanes r = 0
                 \<and> core' = core[unat ser := (core ! unat ser)[0 := None]]
                 \<and> core' ! unat ser ! 0 = None"
    if "tdPlaneCount td = Some 0 \<or> (tdPlaneCount td = None \<and> tdIFD td = None)"
    using that nth0 by (auto simp: getTiffDataValues_def set0 Let_def)
  have pos: "\<exists>r. getTiffDataValues core ser td None 0 0 0 0 = Inr (r, core)
                 \<and> valid r \<and> numPlanes r = n"
    if "tdPlaneCount td = Some n" "n > 0" for n
    using that by (auto simp: getTiffDataValues_def Let_def)
  from one zero pos show ?thesis by blast
qed

theorem getTiffDataValues_plane_count_witness:
  "(\<exists>r. getTiffDataValues [[Some small_core]] 0
          \<lparr>tdIFD = Some 3, tdPlaneCount = None, tdFirstZ = None, tdFirstC = None, tdFirstT = None\<rparr>
          None 0 0 0 0 = Inr (r, [[Some small_core]]) \<and> valid r \<and> numPlanes r = 1 \<and> ifd r = Some 3)
   \<and> (\<exists>r. getTiffDataValues [[Some small_core]] 0
          \<lparr>tdIFD = None, tdPlaneCount = None, tdFirstZ = None, tdFirstC = None, tdFirstT = None\<rparr>
          None 0 0 0 0 = Inr (r, [[None]]) \<and> \<not> valid r \<and> numPlanes r = 0)
   \<and> (\<exists>r. getTiffDataValues [[Some small_core]] 0
          \<lparr>tdIFD = Some 3, tdPlaneCount = Some 2, tdFirstZ = None, tdFirstC = None, tdFirstT = None\<rparr>
          None 0 0 0 0 = Inr (r, [[Some small_core]]) \<and> valid r \<and> numPlanes r = 2)"
proof -
  have len: "unat (0 :: dimension_size_type) < length [[Some small_core]]"
    and ne: "[[Some small_core]] ! unat (0 :: dimension_size_type) \<noteq> []"
    by simp_all
  show ?thesis
    using getTiffDataValues_plane_count [OF len ne,
        of "\<lparr>tdIFD = Some 3, tdPlaneCount = None, tdFirstZ = None, tdFirstC = None, tdFirstT = None\<rparr>"]
      getTiffDataValues_plane_count [OF len ne,
        of "\<lparr>tdIFD = None, tdPlaneCount = None, tdFirstZ = None, tdFirstC = None, tdFirstT = None\<rparr>"]
      getTiffDataValues_plane_count [OF len ne,
        of "\<lparr>tdIFD = Some 3, tdPlaneCount = Some 2, tdFirstZ = None, tdFirstC = None, tdFirstT = None\<rparr>"]
    by simp
qed

subsection \<open>fixDimensions\<close>

text \<open>
  What \<open>fixDimensions\<close> does to the core metadata it finds; \<open>channelCount\<close> is
  \<open>std::accumulate\<close> over \<open>sizeC\<close>. All arithmetic is that of \<open>dimension_size_type\<close>.
\<close>

definition fixDimensions_coreMeta :: "CoreMetadata \<Rightarrow> CoreMetadata" where
  "fixDimensions_coreMeta coreMeta =
     (let channelCount = foldl (+) 0 (sizeC coreMeta) in
      if sizeZ coreMeta * sizeT coreMeta * channelCount > imageCount coreMeta
         \<and> channelCount = of_nat (length (sizeC coreMeta))
      then
        if sizeZ coreMeta = imageCount coreMeta
        then coreMeta\<lparr>sizeT := 1, sizeC := [] @ [1]\<rparr>
        else if sizeT coreMeta = imageCount coreMeta
        then coreMeta\<lparr>sizeZ := 1, sizeC := [] @ [1]\<rparr>
        else if channelCount = imageCount coreMeta
        then coreMeta\<lparr>sizeZ := 1, sizeT := 1\<rparr>
        else coreMeta\<lparr>sizeZ := 1, sizeT := imageCount coreMeta, sizeC := [] @ [1]\<rparr>
      else coreMeta)"

definition fixDimensions :: "Core \<Rightarrow> dimension_size_type \<Rightarrow> error + Core" where
  "fixDimensions core ser =
     andThen (at core ser) (\<lambda>levels.
     andThen (at levels 0) (\<lambda>coreMeta.
       case coreMeta of
         None \<Rightarrow> Inr core
       | Some cm \<Rightarrow> Inr (core[unat ser := levels[0 := Some (fixDimensions_coreMeta cm)]])))"

lemma foldl_plus_sum_list: "foldl (+) a xs = a + sum_list (xs :: dimension_size_type list)"
  by (induction xs arbitrary: a) (simp_all add: add.assoc)

lemma accumulate_sum_list: "foldl (+) 0 xs = sum_list (xs :: dimension_size_type list)"
  by (simp add: foldl_plus_sum_list)

subsection \<open>C6: the case analysis of fixDimensions\<close>

text \<open>
  C6. For a series with core metadata \<open>cm\<close>: when \<open>sizeZ * sizeT * sum(sizeC) > imageCount\<close>
  and \<open>sum(sizeC) = len(sizeC)\<close> (in the arithmetic of \<open>dimension_size_type\<close>),
  \<open>fixDimensions\<close> replaces the dimensions by the first case that applies: \<open>sizeZ =
  imageCount\<close> gives \<open>sizeT := 1, sizeC := [1]\<close>; \<open>sizeT = imageCount\<close> gives \<open>sizeZ := 1,
  sizeC := [1]\<close>; \<open>sum(sizeC) = imageCount\<close> gives \<open>sizeZ := 1, sizeT := 1\<close>; otherwise
  \<open>sizeZ := 1, sizeT := imageCount, sizeC := [1]\<close>. Nothing else of the core metadata
  changes, and a series that does not satisfy the guard is left as it is.
\<close>

theorem fixDimensions_cases:
  assumes "unat ser < length core" and "core ! unat ser \<noteq> []"
    and "core ! unat ser ! 0 = Some cm"
  shows "(sizeZ cm * sizeT cm * sum_list (sizeC cm) > imageCount cm
          \<and> sum_list (sizeC cm) = of_nat (length (sizeC cm)) \<longrightarrow>
            fixDimensions core ser = Inr (core[unat ser := (core ! unat ser)[0 := Some
              (if sizeZ cm = imageCount cm then cm\<lparr>sizeT := 1, sizeC := [1]\<rparr>
               else if sizeT cm = imageCount cm then cm\<lparr>sizeZ := 1, sizeC := [1]\<rparr>
               else if sum_list (sizeC cm) = imageCount cm then cm\<lparr>sizeZ := 1, sizeT := 1\<rparr>
               else cm\<lparr>sizeZ := 1, sizeT := imageCount cm, sizeC := [1]\<rparr>)]]))
       \<and> (\<not> (sizeZ cm * sizeT cm * sum_list (sizeC cm) > imageCount cm
              \<and> sum_list (sizeC cm) = of_nat (length (sizeC cm))) \<longrightarrow>
            fixDimensions core ser = Inr core)"
proof -
  have lv: "at core ser = Inr (core ! unat ser)" "at (core ! unat ser) 0 = Inr (Some cm)"
    using assms by (simp_all add: at_def)
  have same: "core[unat ser := (core ! unat ser)[0 := Some cm]] = core"
    using assms by (metis list_update_id)
  have run: "fixDimensions core ser
      = Inr (core[unat ser := (core ! unat ser)[0 := Some (fixDimensions_coreMeta cm)]])"
    by (simp add: fixDimensions_def lv)
  have pos: "fixDimensions core ser = Inr (core[unat ser := (core ! unat ser)[0 := Some
              (if sizeZ cm = imageCount cm then cm\<lparr>sizeT := 1, sizeC := [1]\<rparr>
               else if sizeT cm = imageCount cm then cm\<lparr>sizeZ := 1, sizeC := [1]\<rparr>
               else if sum_list (sizeC cm) = imageCount cm then cm\<lparr>sizeZ := 1, sizeT := 1\<rparr>
               else cm\<lparr>sizeZ := 1, sizeT := imageCount cm, sizeC := [1]\<rparr>)]])"
    if g: "sizeZ cm * sizeT cm * sum_list (sizeC cm) > imageCount cm
          \<and> sum_list (sizeC cm) = of_nat (length (sizeC cm))"
  proof -
    have "fixDimensions_coreMeta cm =
              (if sizeZ cm = imageCount cm then cm\<lparr>sizeT := 1, sizeC := [1]\<rparr>
               else if sizeT cm = imageCount cm then cm\<lparr>sizeZ := 1, sizeC := [1]\<rparr>
               else if sum_list (sizeC cm) = imageCount cm then cm\<lparr>sizeZ := 1, sizeT := 1\<rparr>
               else cm\<lparr>sizeZ := 1, sizeT := imageCount cm, sizeC := [1]\<rparr>)"
      unfolding fixDimensions_coreMeta_def accumulate_sum_list Let_def
      by (subst if_P [OF g]) (simp only: append_Nil)
    then show ?thesis by (simp only: run)
  qed
  have neg: "fixDimensions core ser = Inr core"
    if g: "\<not> (sizeZ cm * sizeT cm * sum_list (sizeC cm) > imageCount cm
          \<and> sum_list (sizeC cm) = of_nat (length (sizeC cm)))"
  proof -
    have "fixDimensions_coreMeta cm = cm"
      unfolding fixDimensions_coreMeta_def accumulate_sum_list Let_def
      by (subst if_not_P [OF g]) (rule refl)
    then show ?thesis by (simp only: run same)
  qed
  from pos neg show ?thesis by blast
qed

text \<open>
  A series said to have 5 Z sections, 3 time points and 2 channels, for which only 5
  planes were found: the Z size equals the image count, so T and C collapse. A consistent
  series (1 Z section, 2 time points, 1 channel, 2 planes) stays as it is.
\<close>

definition overcounted_core :: CoreMetadata where
  "overcounted_core = \<lparr>sizeX = 16, sizeY = 16, sizeZ = 5, sizeT = 3, sizeC = [1, 1],
     imageCount = 5, dimensionOrder = XYZCT\<rparr>"

theorem fixDimensions_cases_witness:
  "fixDimensions [[Some overcounted_core], [Some small_core]] 0
     = Inr [[Some (overcounted_core\<lparr>sizeT := 1, sizeC := [1]\<rparr>)], [Some small_core]]
   \<and> fixDimensions [[Some overcounted_core], [Some small_core]] 1
     = Inr [[Some overcounted_core], [Some small_core]]"
proof -
  have a: "fixDimensions [[Some overcounted_core], [Some small_core]] 0
     = Inr [[Some (overcounted_core\<lparr>sizeT := 1, sizeC := [1]\<rparr>)], [Some small_core]]"
    using fixDimensions_cases [of 0 "[[Some overcounted_core], [Some small_core]]" overcounted_core]
    by (simp add: overcounted_core_def)
  have b: "fixDimensions [[Some overcounted_core], [Some small_core]] 1
     = Inr [[Some overcounted_core], [Some small_core]]"
    using fixDimensions_cases [of 1 "[[Some overcounted_core], [Some small_core]]" small_core]
    by (simp add: small_core_def)
  from a b show ?thesis by simp
qed

end
